theory Spec2Isabelle
  imports Main "HOL-Library.Sublist"
begin

section \<open>Data model (types.ts)\<close>

text \<open>
  JavaScript strings are modelled as \<^typ>\<open>string\<close>, the bytes of their UTF-8 text. The
  operations used below are concatenation, equality and the test for the empty string,
  which do not depend on the encoding.

  \<^verbatim>\<open>
  export interface ValidationContext {
    toolName: string;
    filePath: string;
    content: string;
    oldContent?: string;
    operation: 'edit' | 'write';
  }
  \<close>
  The optional field \<open>oldContent?\<close> is an option: \<open>None\<close> is a context object that
  carries no such value.
\<close>

datatype operation = Edit | Write

record ValidationContext =
  toolName :: string
  filePath :: string
  content :: string
  oldContent :: "string option"
  operation :: operation

text \<open>
  \<^verbatim>\<open>
  export interface ValidationResult {
    valid: boolean;
    errors: string[];
    formatErrors: () => string;
  }
  \<close>
  \<open>formatErrors\<close> is a closure over the very array stored in \<open>errors\<close>; it is the
  function \<open>formatErrors\<close> of the result below.
\<close>

record ValidationResult =
  valid :: bool
  errors :: "string list"

text \<open>
  An exception is a value; a computation that may throw returns \<open>exn + 'a\<close>, with
  \<open>Inl\<close> the exception thrown. The rule interface:
  \<^verbatim>\<open>
  export interface ValidationRule {
    name: string;
    description: string;
    shouldRun: (context: ValidationContext) => boolean;
    validate: (context: ValidationContext) => Promise<string[]> | string[];
  }
  \<close>
  Awaiting a promise is sequential in the single-threaded engine: a resolved promise is
  its value, a rejected one the exception. The engine's own \<open>validate\<close> is
  \<open>validator_validate\<close> below, since a record field already has the name.
\<close>

datatype exn = Exn string

record ValidationRule =
  name :: string
  description :: string
  shouldRun :: "ValidationContext \<Rightarrow> exn + bool"
  validate :: "ValidationContext \<Rightarrow> exn + string list"

text \<open>
  \<^verbatim>\<open>
  export interface ClaudeCodeHookInput {
    tool_name: string;
    tool_input: {
      file_path?: string; content?: string; new_string?: string; old_string?: string;
      [key: string]: any;
    };
  }
  \<close>
  The payload's \<open>content\<close> field is \<open>new_content\<close> here (the context has a field
  \<open>content\<close> already). An absent field reads as \<open>undefined\<close>, which is \<open>None\<close>.
\<close>

record tool_input =
  file_path :: "string option"
  new_content :: "string option"
  new_string :: "string option"
  old_string :: "string option"

record ClaudeCodeHookInput =
  tool_name :: string
  tool_input :: tool_input

section \<open>The context builder (parseInput)\<close>

text \<open>
  JavaScript's \<open>a || b\<close> on optional strings: \<open>a\<close> when it is truthy, that is present and
  not the empty string, and \<open>b\<close> otherwise.
\<close>

fun truthy_str :: "string option \<Rightarrow> bool" where
  "truthy_str None = False"
| "truthy_str (Some s) = (s \<noteq> [])"

definition js_or :: "string option \<Rightarrow> string option \<Rightarrow> string option" where
  "js_or a b = (if truthy_str a then a else b)"

text \<open>\<open>a || ''\<close>: the right operand is a string, so the result is one.\<close>

definition js_or_empty :: "string option \<Rightarrow> string" where
  "js_or_empty a = (case js_or a (Some []) of Some s \<Rightarrow> s | None \<Rightarrow> [])"

text \<open>
  \<^verbatim>\<open>
  parseInput(input: ClaudeCodeHookInput): ValidationContext {
    const toolName = input.tool_name;
    const toolInput = input.tool_input;
    return {
      toolName,
      filePath: toolInput.file_path || '',
      content: toolInput.content || toolInput.new_string || '',
      oldContent: toolInput.old_string || '',
      operation: toolName === 'Edit' ? 'edit' : 'write'
    };
  }
  \<close>
\<close>

definition parseInput :: "ClaudeCodeHookInput \<Rightarrow> ValidationContext" where
  "parseInput input =
     (let toolName = tool_name input;
          toolInput = tool_input input
      in \<lparr> toolName = toolName,
           filePath = js_or_empty (file_path toolInput),
           content = js_or_empty (js_or (new_content toolInput) (new_string toolInput)),
           oldContent = Some (js_or_empty (old_string toolInput)),
           operation = (if toolName = ''Edit'' then Edit else Write) \<rparr>)"

section \<open>Rendering the diagnostics (formatErrors)\<close>

text \<open>\<open>xs.join(sep)\<close> on an array of strings.\<close>

fun join :: "string \<Rightarrow> string list \<Rightarrow> string" where
  "join sep [] = []"
| "join sep [x] = x"
| "join sep (x # y # ys) = x @ sep @ join sep (y # ys)"

text \<open>
  The header literal of the source is a line feed, the warning sign (U+26A0 U+FE0F, six
  bytes in UTF-8), two spaces, the words, and two line feeds.
\<close>

definition header :: string where
  "header = [CHR 0x0A, CHR 0xE2, CHR 0x9A, CHR 0xA0, CHR 0xEF, CHR 0xB8, CHR 0x8F]
            @ ''  VALIDATION ERRORS:'' @ [CHR 0x0A, CHR 0x0A]"

definition blank_line :: string where
  "blank_line = [CHR 0x0A, CHR 0x0A]"

text \<open>
  \<^verbatim>\<open>
  formatErrors: () => {
    if (errors.length === 0) return '';
    return '\n...  VALIDATION ERRORS:\n\n' + errors.map(e => `${e}`).join('\n\n');
  }
  \<close>
\<close>

definition formatErrors :: "ValidationResult \<Rightarrow> string" where
  "formatErrors r =
     (if length (errors r) = 0 then []
      else header @ join blank_line (map (\<lambda>e. e) (errors r)))"

section \<open>The lifecycle hook bus (the hookable package)\<close>

text \<open>
  Modelled from the spec: the \<open>hookable\<close> package (\<open>createHooks\<close>, \<open>hook\<close>, \<open>callHook\<close>) is a
  dependency of the repository and its source is not part of it. The specification
  describes the bus as a named-event dispatcher that registers a handler for an event
  name and invokes all handlers registered for an event name with given arguments,
  awaiting each in turn before invoking the next, in registration order. Accordingly:
  \<^item> \<open>hook(name, fn)\<close> appends \<open>fn\<close> to the handlers of \<open>name\<close> (the package ignores an
    empty name);
  \<^item> \<open>callHook(name, ...args)\<close> runs the handlers of \<open>name\<close> one after the other, in the
    order they were added, each awaited before the next is called. As in the package's
    serial caller
    (\<open>hooks.reduce((promise, fn) => promise.then(() => fn(...args)), Promise.resolve())\<close>),
    the call resolves to what the last handler returned, to \<open>undefined\<close> when the name has
    no handler, and rejects with the exception of the first handler that throws; the
    handlers after that one are not called.

  A handler is a function of the context, as the one \<open>registerRule\<close> binds. Its value is
  \<open>None\<close> for \<open>undefined\<close> and \<open>Some ds\<close> for an array of diagnostics. The table keeps
  the handlers of all names in one list, in the order they were added. Every call of a
  handler is recorded, with the name of the channel it was called on, in a trace.
\<close>

type_synonym handler = "ValidationContext \<Rightarrow> exn + string list option"

type_synonym hook_table = "(string \<times> handler) list"

type_synonym trace = "(string \<times> handler) list"

definition hook :: "string \<Rightarrow> handler \<Rightarrow> hook_table \<Rightarrow> hook_table" where
  "hook nm f hs = (if nm = [] then hs else hs @ [(nm, f)])"

fun serialTaskCaller ::
  "string \<Rightarrow> handler list \<Rightarrow> ValidationContext \<Rightarrow> string list option
     \<Rightarrow> trace \<times> (exn + string list option)" where
  "serialTaskCaller nm [] context acc = ([], Inr acc)"
| "serialTaskCaller nm (f # fs) context acc =
     (case f context of
        Inl e \<Rightarrow> ([(nm, f)], Inl e)
      | Inr v \<Rightarrow>
          (case serialTaskCaller nm fs context v of
             (fired, r) \<Rightarrow> ((nm, f) # fired, r)))"

definition handlers_of :: "hook_table \<Rightarrow> string \<Rightarrow> handler list" where
  "handlers_of hs nm = map snd (filter (\<lambda>entry. fst entry = nm) hs)"

definition callHook ::
  "hook_table \<Rightarrow> string \<Rightarrow> ValidationContext \<Rightarrow> trace \<times> (exn + string list option)" where
  "callHook hs nm context = serialTaskCaller nm (handlers_of hs nm) context None"

section \<open>The validation engine (createValidator)\<close>

text \<open>
  \<^verbatim>\<open>
  export function createValidator() {
    const hooks = createHooks();
    const rules: ValidationRule[] = [];
    return { registerRule(rule) {...}, async validate(input) {...}, parseInput(input) {...},
             getRules() { return rules; }, getHooks() { return hooks; } };
  }
  \<close>
\<close>

record validator =
  rules :: "ValidationRule list"
  hooks :: hook_table

definition createValidator :: validator where
  "createValidator = \<lparr> rules = [], hooks = [] \<rparr>"

definition getRules :: "validator \<Rightarrow> ValidationRule list" where
  "getRules v = rules v"

definition getHooks :: "validator \<Rightarrow> hook_table" where
  "getHooks v = hooks v"

text \<open>
  \<^verbatim>\<open>
  registerRule(rule: ValidationRule) {
    rules.push(rule);
    hooks.hook(`validate:${rule.name}`, async (context: ValidationContext) => {
      return await rule.validate(context);
    });
  }
  \<close>
\<close>

definition channel :: "string \<Rightarrow> string" where
  "channel n = ''validate:'' @ n"

definition rule_handler :: "ValidationRule \<Rightarrow> handler" where
  "rule_handler rule =
     (\<lambda>context. case validate rule context of Inl e \<Rightarrow> Inl e | Inr ds \<Rightarrow> Inr (Some ds))"

definition registerRule :: "ValidationRule \<Rightarrow> validator \<Rightarrow> validator" where
  "registerRule rule v =
     v \<lparr> rules := rules v @ [rule],
         hooks := hook (channel (name rule)) (rule_handler rule) (hooks v) \<rparr>"

text \<open>
  The caller's loop \<open>for (const rule of rules) validator.registerRule(rule)\<close> (cli.ts), and
  the engine it gives when it starts from a new validator: the engine with the rules
  \<open>rs\<close> registered in that order, and no handler but theirs.
\<close>

fun register_all :: "ValidationRule list \<Rightarrow> validator \<Rightarrow> validator" where
  "register_all [] v = v"
| "register_all (rule # rest) v = register_all rest (registerRule rule v)"

definition registered :: "ValidationRule list \<Rightarrow> validator" where
  "registered rs = register_all rs createValidator"

text \<open>
  \<^verbatim>\<open>
  if (result && result.length > 0) { errors.push(...result); }
  \<close>
\<close>

definition push_result :: "string list \<Rightarrow> string list option \<Rightarrow> string list" where
  "push_result errs result =
     (case result of
        None \<Rightarrow> errs
      | Some r \<Rightarrow> if length r > 0 then errs @ r else errs)"

text \<open>
  \<^verbatim>\<open>
  for (const rule of rules) {
    if (rule.shouldRun(context)) {
      const result = await hooks.callHook(`validate:${rule.name}`, context);
      if (result && result.length > 0) { errors.push(...result); }
    }
  }
  \<close>
  The loop over the rules still to run, with the array \<open>errors\<close> as it stands.
\<close>

fun run_rules ::
  "hook_table \<Rightarrow> ValidationContext \<Rightarrow> ValidationRule list \<Rightarrow> string list
     \<Rightarrow> trace \<times> (exn + string list)" where
  "run_rules hs context [] errs = ([], Inr errs)"
| "run_rules hs context (rule # rest) errs =
     (case shouldRun rule context of
        Inl e \<Rightarrow> ([], Inl e)
      | Inr False \<Rightarrow> run_rules hs context rest errs
      | Inr True \<Rightarrow>
          (case callHook hs (channel (name rule)) context of
             (fired, Inl e) \<Rightarrow> (fired, Inl e)
           | (fired, Inr result) \<Rightarrow>
               (case run_rules hs context rest (push_result errs result) of
                  (fired', r) \<Rightarrow> (fired @ fired', r))))"

text \<open>
  \<^verbatim>\<open>
  async validate(input: ClaudeCodeHookInput): Promise<ValidationResult> {
    const context = this.parseInput(input);
    await hooks.callHook('validate:before', context);
    const errors: string[] = [];
    for (const rule of rules) { ... }
    await hooks.callHook('validate:after', context, errors);
    return { valid: errors.length === 0, errors, formatErrors: () => {...} };
  }
  \<close>
  The result is the trace of the handlers called and either the exception that ended the
  call or the returned ValidationResult. \<open>validate:after\<close> is called with the context and
  the array \<open>errors\<close>; the handlers of the model are those that \<open>registerRule\<close> binds,
  which take the context only and neither read nor change that array. A handler added
  from outside through \<open>getHooks\<close> is not covered: the properties below are about the
  engines \<open>registered rs\<close>, whose handlers are the rules' own.
\<close>

definition validator_validate ::
  "validator \<Rightarrow> ClaudeCodeHookInput \<Rightarrow> trace \<times> (exn + ValidationResult)" where
  "validator_validate v input =
     (let context = parseInput input in
      case callHook (hooks v) ''validate:before'' context of
        (t1, Inl e) \<Rightarrow> (t1, Inl e)
      | (t1, Inr _) \<Rightarrow>
          (case run_rules (hooks v) context (rules v) [] of
             (t2, Inl e) \<Rightarrow> (t1 @ t2, Inl e)
           | (t2, Inr errs) \<Rightarrow>
               (case callHook (hooks v) ''validate:after'' context of
                  (t3, Inl e) \<Rightarrow> (t1 @ t2 @ t3, Inl e)
                | (t3, Inr _) \<Rightarrow>
                    (t1 @ t2 @ t3,
                     Inr \<lparr> valid = (length errs = 0), errors = errs \<rparr>))))"

section \<open>Rule discovery (rule-loader.ts)\<close>

text \<open>
  The values a module exports are JavaScript values. Of a value the structural check
  observes its truthiness, its \<open>typeof\<close> and, for an object, its properties (own or
  inherited). Numbers are integers here, since only \<open>typeof\<close> and the test against
  zero are observed; a function is an opaque value of type \<open>'f\<close>.
\<close>

datatype 'f jsval =
    JUndefined
  | JNull
  | JBoolean bool
  | JNumber int
  | JString string
  | JFunction 'f
  | JObject "(string \<times> 'f jsval) list"

fun js_truthy :: "'f jsval \<Rightarrow> bool" where
  "js_truthy JUndefined = False"
| "js_truthy JNull = False"
| "js_truthy (JBoolean b) = b"
| "js_truthy (JNumber n) = (n \<noteq> 0)"
| "js_truthy (JString s) = (s \<noteq> [])"
| "js_truthy (JFunction f) = True"
| "js_truthy (JObject props) = True"

fun js_typeof :: "'f jsval \<Rightarrow> string" where
  "js_typeof JUndefined = ''undefined''"
| "js_typeof JNull = ''object''"
| "js_typeof (JBoolean b) = ''boolean''"
| "js_typeof (JNumber n) = ''number''"
| "js_typeof (JString s) = ''string''"
| "js_typeof (JFunction f) = ''function''"
| "js_typeof (JObject props) = ''object''"

text \<open>
  \<open>obj.key\<close>: a property that is missing reads as \<open>undefined\<close>. The check below reads
  properties of objects only (\<open>&&\<close> stops at the first falsy operand).
\<close>

fun get_property :: "'f jsval \<Rightarrow> string \<Rightarrow> 'f jsval" where
  "get_property (JObject props) key =
     (case map_of props key of Some v \<Rightarrow> v | None \<Rightarrow> JUndefined)"
| "get_property v key = JUndefined"

text \<open>
  \<^verbatim>\<open>
  function isValidationRule(obj: any): obj is ValidationRule {
    return (
      obj &&
      typeof obj === 'object' &&
      typeof obj.name === 'string' &&
      typeof obj.description === 'string' &&
      typeof obj.shouldRun === 'function' &&
      typeof obj.validate === 'function'
    );
  }
  \<close>
  The caller tests the returned value in an \<open>if\<close>; the model is its truthiness.
\<close>

definition isValidationRule :: "'f jsval \<Rightarrow> bool" where
  "isValidationRule obj =
     (if \<not> js_truthy obj then False
      else if js_typeof obj \<noteq> ''object'' then False
      else if js_typeof (get_property obj ''name'') \<noteq> ''string'' then False
      else if js_typeof (get_property obj ''description'') \<noteq> ''string'' then False
      else if js_typeof (get_property obj ''shouldRun'') \<noteq> ''function'' then False
      else js_typeof (get_property obj ''validate'') = ''function'')"

text \<open>
  The file system and the module loader are the environment of \<open>loadRules\<close>: what
  \<open>glob(pattern, options)\<close> finds (or the exception it throws), and what \<open>import(file)\<close>
  loads: the module's exports by name, in the order \<open>Object.values\<close> lists them, or the
  exception of a module that fails to load. Which files match the pattern and the
  \<open>ignore\<close> list is the glob package's part.
\<close>

record glob_options =
  absolute :: bool
  ignore :: "string list"

record 'f environment =
  glob :: "string \<Rightarrow> glob_options \<Rightarrow> exn + string list"
  import_module :: "string \<Rightarrow> exn + (string \<times> 'f jsval) list"

definition Object_values :: "(string \<times> 'f jsval) list \<Rightarrow> 'f jsval list" where
  "Object_values module = map snd module"

text \<open>What \<open>console.warn(msg, error)\<close> and \<open>console.error(msg, error)\<close> write.\<close>

datatype console_msg = ConsoleWarn string exn | ConsoleError string exn

text \<open>
  \<^verbatim>\<open>
  for (const exp of exports) {
    if (isValidationRule(exp)) { rules.push(exp as ValidationRule); }
  }
  \<close>
\<close>

fun collect_exports :: "'f jsval list \<Rightarrow> 'f jsval list \<Rightarrow> 'f jsval list" where
  "collect_exports [] found = found"
| "collect_exports (exp # rest) found =
     collect_exports rest (if isValidationRule exp then found @ [exp] else found)"

text \<open>
  \<^verbatim>\<open>
  for (const file of ruleFiles) {
    try {
      const module = await import(file);
      const exports = Object.values(module);
      for (const exp of exports) { ... }
    } catch (error) {
      console.warn(`Failed to load rule from ${file}:`, error);
    }
  }
  \<close>
  The state of the loop is the console output so far and the array \<open>rules\<close> (here
  \<open>found\<close>). Inside the \<open>try\<close> it is the \<open>import\<close> that may throw: reading the
  properties of the values modelled here does not.
\<close>

fun load_files ::
  "'f environment \<Rightarrow> string list \<Rightarrow> console_msg list \<times> 'f jsval list
     \<Rightarrow> console_msg list \<times> 'f jsval list" where
  "load_files env [] (console, found) = (console, found)"
| "load_files env (file # rest) (console, found) =
     (case import_module env file of
        Inl error \<Rightarrow>
          load_files env rest
            (console @ [ConsoleWarn (''Failed to load rule from '' @ file @ '':'') error], found)
      | Inr module \<Rightarrow>
          load_files env rest (console, collect_exports (Object_values module) found))"

definition rule_pattern :: "string \<Rightarrow> string" where
  "rule_pattern rulesDir = rulesDir @ ''/**/*.{ts,js}''"

definition rule_glob_options :: glob_options where
  "rule_glob_options =
     \<lparr> absolute = True,
       ignore = [''**/*.test.ts'', ''**/*.spec.ts'', ''**/node_modules/**''] \<rparr>"

text \<open>
  \<^verbatim>\<open>
  export async function loadRules(rulesDir: string): Promise<ValidationRule[]> {
    const rules: ValidationRule[] = [];
    try {
      const ruleFiles = await glob(`${rulesDir}/**/*.{ts,js}`, {
        absolute: true,
        ignore: ['**/*.test.ts', '**/*.spec.ts', '**/node_modules/**']
      });
      for (const file of ruleFiles) { ... }
      return rules;
    } catch (error) {
      console.error('Error loading rules:', error);
      return [];
    }
  }
  \<close>
  \<open>loadRules_try\<close> is the body of the outer \<open>try\<close>, which may throw; \<open>loadRules\<close> adds the
  \<open>catch\<close>. The result is the console output and what the call returns or throws.
\<close>

definition loadRules_try ::
  "'f environment \<Rightarrow> string \<Rightarrow> console_msg list \<times> (exn + 'f jsval list)" where
  "loadRules_try env rulesDir =
     (case glob env (rule_pattern rulesDir) rule_glob_options of
        Inl error \<Rightarrow> ([], Inl error)
      | Inr ruleFiles \<Rightarrow>
          (case load_files env ruleFiles ([], []) of
             (console, found) \<Rightarrow> (console, Inr found)))"

definition loadRules ::
  "'f environment \<Rightarrow> string \<Rightarrow> console_msg list \<times> (exn + 'f jsval list)" where
  "loadRules env rulesDir =
     (case loadRules_try env rulesDir of
        (console, Inl error) \<Rightarrow>
          (console @ [ConsoleError ''Error loading rules:'' error], Inr [])
      | (console, Inr found) \<Rightarrow> (console, Inr found))"

section \<open>Finding the project root (findProjectRoot)\<close>

text \<open>
  \<open>resolve\<close>, \<open>dirname\<close> and \<open>join\<close> are those of Node's \<open>path\<close> module on a POSIX system,
  where \<open>resolve\<close> gives an absolute, normalised path. Such a path is the list of its
  segments: \<open>[]\<close> is \<open>'/'\<close> and \<open>[''home'', ''me'']\<close> is \<open>'/home/me'\<close>. \<open>dirname\<close> drops the
  last segment and leaves \<open>'/'\<close> as it is; \<open>join(dir, name)\<close> adds a segment. The file
  system is the predicate \<open>existsSync\<close>. The start directory is given resolved.
\<close>

type_synonym path = "string list"

definition root :: path where
  "root = []"

definition dirname :: "path \<Rightarrow> path" where
  "dirname p = butlast p"

definition join_path :: "path \<Rightarrow> string \<Rightarrow> path" where
  "join_path p seg = p @ [seg]"

text \<open>
  \<^verbatim>\<open>
  export function findProjectRoot(startDir: string = process.cwd()): string | null {
    let currentDir = resolve(startDir);
    const root = '/';
    while (currentDir !== root) {
      const claudeDir = join(currentDir, '.claude');
      if (existsSync(claudeDir)) { return currentDir; }
      currentDir = dirname(currentDir);
    }
    return null;
  }
  \<close>
\<close>

function findProjectRoot :: "(path \<Rightarrow> bool) \<Rightarrow> path \<Rightarrow> path option" where
  "findProjectRoot existsSync currentDir =
     (if currentDir \<noteq> root then
        (let claudeDir = join_path currentDir ''.claude'' in
         if existsSync claudeDir then Some currentDir
         else findProjectRoot existsSync (dirname currentDir))
      else None)"
  by pat_completeness auto
termination
  by (relation "measure (\<lambda>(existsSync, currentDir). length currentDir)")
     (auto simp: root_def dirname_def)

section \<open>Vocabulary of the properties\<close>

text \<open>
  A rule is applicable on a context when its \<open>shouldRun\<close> returns true there; its
  diagnostics are what its \<open>validate\<close> returns; \<open>emitted\<close> lists the diagnostics of the
  applicable rules of a list, rule after rule.
\<close>

definition applicable :: "ValidationContext \<Rightarrow> ValidationRule \<Rightarrow> bool" where
  "applicable context r = (shouldRun r context = Inr True)"

definition diagnostics :: "ValidationContext \<Rightarrow> ValidationRule \<Rightarrow> string list" where
  "diagnostics context r = (case validate r context of Inl e \<Rightarrow> [] | Inr ds \<Rightarrow> ds)"

definition emitted :: "ValidationContext \<Rightarrow> ValidationRule list \<Rightarrow> string list" where
  "emitted context rs = concat (map (diagnostics context) (filter (applicable context) rs))"

text \<open>
  The calls that the channel of the name \<open>n\<close> makes on the engine with the rules \<open>rs\<close>
  when every handler returns: the handlers of the rules named \<open>n\<close>, in registration
  order.
\<close>

definition fired_on :: "string \<Rightarrow> ValidationRule list \<Rightarrow> trace" where
  "fired_on n rs = map (\<lambda>r. (channel n, rule_handler r)) (filter (\<lambda>r. name r = n) rs)"

text \<open>
  The structural check in the words of the specification: an object with a string
  \<open>name\<close>, a string \<open>description\<close>, a function \<open>shouldRun\<close> and a function \<open>validate\<close>.
\<close>

fun has_string :: "(string \<times> 'f jsval) list \<Rightarrow> string \<Rightarrow> bool" where
  "has_string props key = (case map_of props key of Some (JString s) \<Rightarrow> True | _ \<Rightarrow> False)"

fun has_function :: "(string \<times> 'f jsval) list \<Rightarrow> string \<Rightarrow> bool" where
  "has_function props key = (case map_of props key of Some (JFunction f) \<Rightarrow> True | _ \<Rightarrow> False)"

definition passes_structural_check :: "'f jsval \<Rightarrow> bool" where
  "passes_structural_check v =
     (case v of
        JObject props \<Rightarrow>
          has_string props ''name'' \<and> has_string props ''description'' \<and>
          has_function props ''shouldRun'' \<and> has_function props ''validate''
      | _ \<Rightarrow> False)"

text \<open>What one candidate file adds to the result, and what it writes to the console.\<close>

definition exports_collected :: "'f environment \<Rightarrow> string \<Rightarrow> 'f jsval list" where
  "exports_collected env file =
     (case import_module env file of
        Inl e \<Rightarrow> []
      | Inr module \<Rightarrow> filter isValidationRule (Object_values module))"

definition load_warning :: "'f environment \<Rightarrow> string \<Rightarrow> console_msg list" where
  "load_warning env file =
     (case import_module env file of
        Inl e \<Rightarrow> [ConsoleWarn (''Failed to load rule from '' @ file @ '':'') e]
      | Inr module \<Rightarrow> [])"

text \<open>A directory contains a \<open>.claude\<close> entry. The ancestors of a directory, itself
  included, are the prefixes of its path.\<close>

definition contains_claude :: "(path \<Rightarrow> bool) \<Rightarrow> path \<Rightarrow> bool" where
  "contains_claude existsSync dir = existsSync (join_path dir ''.claude'')"

section \<open>Example inputs\<close>

definition write_input :: ClaudeCodeHookInput where
  "write_input =
     \<lparr> tool_name = ''Write'',
       tool_input = \<lparr> file_path = Some ''x.ts'', new_content = Some ''console.log(1)'',
                      new_string = None, old_string = None \<rparr> \<rparr>"

definition empty_content_input :: ClaudeCodeHookInput where
  "empty_content_input =
     \<lparr> tool_name = ''Write'',
       tool_input = \<lparr> file_path = Some ''x.ts'', new_content = Some [],
                      new_string = Some ''x'', old_string = None \<rparr> \<rparr>"

definition rule_a :: ValidationRule where
  "rule_a = \<lparr> name = ''rule-a'', description = ''first rule'',
              shouldRun = (\<lambda>c. Inr True), validate = (\<lambda>c. Inr [''a1'', ''a2'']) \<rparr>"

definition rule_b :: ValidationRule where
  "rule_b = \<lparr> name = ''rule-b'', description = ''second rule'',
              shouldRun = (\<lambda>c. Inr True), validate = (\<lambda>c. Inr [''b1'']) \<rparr>"

definition rule_skipped :: ValidationRule where
  "rule_skipped = \<lparr> name = ''skipped'', description = ''never applicable'',
                    shouldRun = (\<lambda>c. Inr False), validate = (\<lambda>c. Inr [''never'']) \<rparr>"

definition rule_throws :: ValidationRule where
  "rule_throws = \<lparr> name = ''throws'', description = ''throws in validate'',
                   shouldRun = (\<lambda>c. Inr True), validate = (\<lambda>c. Inl (Exn ''boom'')) \<rparr>"

definition before_rule :: ValidationRule where
  "before_rule = \<lparr> name = ''before'', description = ''not applicable, throws in validate'',
                   shouldRun = (\<lambda>c. Inr False), validate = (\<lambda>c. Inl (Exn ''boom'')) \<rparr>"

definition skipped_throws :: ValidationRule where
  "skipped_throws = \<lparr> name = ''skipped-throws'',
                      description = ''not applicable, throws in validate'',
                      shouldRun = (\<lambda>c. Inr False), validate = (\<lambda>c. Inl (Exn ''boom'')) \<rparr>"

definition predicate_throws :: ValidationRule where
  "predicate_throws = \<lparr> name = ''predicate-throws'', description = ''throws in shouldRun'',
                       shouldRun = (\<lambda>c. Inl (Exn ''bad predicate'')),
                       validate = (\<lambda>c. Inr []) \<rparr>"

definition dup_a :: ValidationRule where
  "dup_a = \<lparr> name = ''dup'', description = ''A'',
             shouldRun = (\<lambda>c. Inr True), validate = (\<lambda>c. Inr [''a'']) \<rparr>"

definition dup_b :: ValidationRule where
  "dup_b = \<lparr> name = ''dup'', description = ''B'',
             shouldRun = (\<lambda>c. Inr True), validate = (\<lambda>c. Inr [''b'']) \<rparr>"

definition dup_off :: ValidationRule where
  "dup_off = \<lparr> name = ''dup'', description = ''C, not applicable'',
               shouldRun = (\<lambda>c. Inr False), validate = (\<lambda>c. Inr [''c'']) \<rparr>"

text \<open>
  A rules directory with a rule file, a file whose export lacks \<open>validate\<close>, and a file
  that fails to load; and a directory whose enumeration fails.
\<close>

definition good_export :: "nat jsval" where
  "good_export =
     JObject [(''name'', JString ''rule-a''), (''description'', JString ''first rule''),
              (''shouldRun'', JFunction 0), (''validate'', JFunction 1)]"

definition bad_export :: "nat jsval" where
  "bad_export =
     JObject [(''name'', JString ''not-a-rule''), (''description'', JString ''no validate''),
              (''shouldRun'', JFunction 2)]"

definition example_env :: "nat environment" where
  "example_env =
     \<lparr> glob = (\<lambda>pattern options.
                 if pattern = ''/p/.claude/rules/**/*.{ts,js}''
                 then Inr [''/p/.claude/rules/rule-a.ts'', ''/p/.claude/rules/broken.ts'',
                           ''/p/.claude/rules/not-a-rule.ts'']
                 else Inl (Exn ''ENOENT'')),
       import_module = (\<lambda>file.
                 if file = ''/p/.claude/rules/rule-a.ts''
                 then Inr [(''ruleA'', good_export), (''version'', JNumber 1)]
                 else if file = ''/p/.claude/rules/not-a-rule.ts''
                 then Inr [(''default'', bad_export)]
                 else Inl (Exn ''SyntaxError'')) \<rparr>"

text \<open>
  A rules directory with a rule file and a JavaScript test file beside it, which exports
  a rule as well. The enumeration answers the call that \<open>loadRules\<close> makes, with its
  pattern and its options; the name of the test file ends in \<open>.js\<close>, as the pattern asks,
  and in none of \<open>.test.ts\<close> and \<open>.spec.ts\<close>, and no \<open>node_modules\<close> directory is on
  its path, so no entry of the ignore list covers it.
\<close>

definition test_export :: "nat jsval" where
  "test_export =
     JObject [(''name'', JString ''rule-a-under-test''), (''description'', JString ''test double''),
              (''shouldRun'', JFunction 3), (''validate'', JFunction 4)]"

definition test_js_env :: "nat environment" where
  "test_js_env =
     \<lparr> glob = (\<lambda>pattern options.
                 if pattern = ''/p/.claude/rules/**/*.{ts,js}'' \<and>
                    options = \<lparr> absolute = True,
                                ignore = [''**/*.test.ts'', ''**/*.spec.ts'',
                                          ''**/node_modules/**''] \<rparr>
                 then Inr [''/p/.claude/rules/rule-a.ts'', ''/p/.claude/rules/rule-a.test.js'']
                 else Inl (Exn ''unexpected call'')),
       import_module = (\<lambda>file.
                 if file = ''/p/.claude/rules/rule-a.ts''
                 then Inr [(''ruleA'', good_export)]
                 else if file = ''/p/.claude/rules/rule-a.test.js''
                 then Inr [(''ruleUnderTest'', test_export)]
                 else Inl (Exn ''ENOENT'')) \<rparr>"

text \<open>A file system whose only \<open>.claude\<close> is in \<open>/home\<close>, and one whose only \<open>.claude\<close>
  is in \<open>/\<close>.\<close>

definition home_fs :: "path \<Rightarrow> bool" where
  "home_fs p = (p = [''home'', ''.claude''])"

definition root_fs :: "path \<Rightarrow> bool" where
  "root_fs p = (p = [''.claude''])"


section \<open>The engine's registration list and hook table\<close>

declare findProjectRoot.simps [simp del]

lemma rules_register_all: "rules (register_all rs v) = rules v @ rs"
  by (induction rs arbitrary: v) (simp_all add: registerRule_def)

lemma hooks_register_all:
  "hooks (register_all rs v) = hooks v @ map (\<lambda>r. (channel (name r), rule_handler r)) rs"
  by (induction rs arbitrary: v) (simp_all add: registerRule_def hook_def channel_def)

lemma rules_registered: "rules (registered rs) = rs"
  by (simp add: registered_def rules_register_all createValidator_def)

lemma hooks_registered:
  "hooks (registered rs) = map (\<lambda>r. (channel (name r), rule_handler r)) rs"
  by (simp add: registered_def hooks_register_all createValidator_def)

lemma handlers_of_registered:
  "handlers_of (hooks (registered rs)) (channel n) = map rule_handler (filter (\<lambda>r. name r = n) rs)"
  unfolding hooks_registered handlers_of_def
  by (induction rs) (simp_all add: channel_def)

lemma push_result_Some: "push_result errs (Some r) = errs @ r"
  by (simp add: push_result_def)

lemma serial_Inr_all:
  "snd (serialTaskCaller nm fs context acc) = Inr x \<Longrightarrow> f \<in> set fs \<Longrightarrow> \<exists>v. f context = Inr v"
proof (induction fs arbitrary: acc)
  case Nil
  then show ?case by simp
next
  case (Cons a fs)
  from Cons.prems(1) obtain v where av: "a context = Inr v"
    and rest: "snd (serialTaskCaller nm fs context v) = Inr x"
    by (auto split: sum.splits prod.splits)
  show ?case
  proof (cases "f = a")
    case True
    with av show ?thesis by blast
  next
    case False
    with Cons.prems(2) have "f \<in> set fs" by simp
    with Cons.IH[OF rest] show ?thesis .
  qed
qed

lemma serial_all_ok_ex:
  "\<forall>f\<in>set fs. \<exists>v. f context = Inr v \<Longrightarrow>
   \<exists>x. serialTaskCaller nm fs context acc = (map (Pair nm) fs, Inr x)"
proof (induction fs arbitrary: acc)
  case Nil
  then show ?case by simp
next
  case (Cons a fs)
  then obtain v where av: "a context = Inr v" by auto
  from Cons have "\<exists>x. serialTaskCaller nm fs context v = (map (Pair nm) fs, Inr x)" by simp
  then obtain x where "serialTaskCaller nm fs context v = (map (Pair nm) fs, Inr x)" ..
  with av show ?case by simp
qed

lemma run_rules_skip:
  "\<forall>r\<in>set rl. shouldRun r context = Inr False \<Longrightarrow> run_rules hs context rl errs = ([], Inr errs)"
  by (induction rl) simp_all

lemma result_valid_iff:
  "snd (validator_validate v input) = Inr res \<Longrightarrow> valid res \<longleftrightarrow> errors res = []"
  by (auto simp: validator_validate_def Let_def split: prod.splits sum.splits)

lemma handlers_lifecycle:
  "handlers_of (hooks (registered rs)) ''validate:before'' = map rule_handler (filter (\<lambda>r. name r = ''before'') rs)"
  "handlers_of (hooks (registered rs)) ''validate:after'' = map rule_handler (filter (\<lambda>r. name r = ''after'') rs)"
  using handlers_of_registered[of rs "''before''"] handlers_of_registered[of rs "''after''"]
  by (simp_all add: channel_def)

lemma callHook_all_ok:
  assumes "\<forall>r\<in>set rs. name r = n \<longrightarrow> (\<exists>ds. validate r context = Inr ds)"
  shows "\<exists>t x. callHook (hooks (registered rs)) (channel n) context = (t, Inr x)"
proof -
  have "\<forall>f\<in>set (map rule_handler (filter (\<lambda>r. name r = n) rs)). \<exists>v. f context = Inr v"
    using assms by (auto simp: rule_handler_def)
  from serial_all_ok_ex[OF this, of "channel n" None] show ?thesis
    unfolding callHook_def handlers_of_registered by blast
qed

lemma no_applicable_valid:
  assumes "\<forall>r\<in>set rs. shouldRun r (parseInput input) = Inr False"
      and "\<forall>r\<in>set rs. name r = ''before'' \<or> name r = ''after'' \<longrightarrow>
             (\<exists>ds. validate r (parseInput input) = Inr ds)"
  shows "snd (validator_validate (registered rs) input) = Inr \<lparr> valid = True, errors = [] \<rparr>"
proof -
  obtain t1 x1 where b: "callHook (hooks (registered rs)) ''validate:before'' (parseInput input) = (t1, Inr x1)"
    using callHook_all_ok[of rs "''before''" "parseInput input"] assms(2) by (auto simp: channel_def)
  obtain t3 x3 where a: "callHook (hooks (registered rs)) ''validate:after'' (parseInput input) = (t3, Inr x3)"
    using callHook_all_ok[of rs "''after''" "parseInput input"] assms(2) by (auto simp: channel_def)
  show ?thesis
    by (simp add: validator_validate_def Let_def b a rules_registered run_rules_skip[OF assms(1)])
qed


lemma filter_name_distinct:
  "distinct (map name rs) \<Longrightarrow> r \<in> set rs \<Longrightarrow> filter (\<lambda>r'. name r' = name r) rs = [r]"
proof (induction rs)
  case Nil
  then show ?case by simp
next
  case (Cons a rs)
  show ?case
  proof (cases "a = r")
    case True
    with Cons.prems(1) have "name r \<notin> name ` set rs" by simp
    then have "\<forall>x\<in>set rs. name x \<noteq> name r" by (metis imageI)
    then have "filter (\<lambda>r'. name r' = name r) rs = []" by (simp add: filter_empty_conv)
    with True show ?thesis by simp
  next
    case False
    with Cons.prems have "r \<in> set rs" and "name a \<noteq> name r" by auto
    with Cons show ?thesis by simp
  qed
qed

lemma callHook_distinct:
  assumes "distinct (map name rs)" and "r \<in> set rs"
  shows "callHook (hooks (registered rs)) (channel (name r)) context =
           ([(channel (name r), rule_handler r)], rule_handler r context)"
  by (simp add: callHook_def handlers_of_registered filter_name_distinct[OF assms]
      split: sum.splits)

lemma run_rules_emitted:
  assumes "\<forall>r\<in>set rl. snd (callHook hs (channel (name r)) context) = rule_handler r context"
      and "snd (run_rules hs context rl errs) = Inr out"
  shows "out = errs @ emitted context rl"
  using assms
proof (induction rl arbitrary: errs)
  case Nil
  then show ?case by (simp add: emitted_def)
next
  case (Cons r rl)
  from Cons.prems(1) have all:
    "\<forall>r\<in>set rl. snd (callHook hs (channel (name r)) context) = rule_handler r context"
    by simp
  from Cons.prems(2) obtain b where b: "shouldRun r context = Inr b"
    by (cases "shouldRun r context") auto
  show ?case
  proof (cases b)
    case False
    with b Cons.prems have "snd (run_rules hs context rl errs) = Inr out" by simp
    from Cons.IH[OF all this] have "out = errs @ emitted context rl" .
    with b False show ?thesis by (simp add: emitted_def applicable_def)
  next
    case True
    from Cons.prems(1) have h: "snd (callHook hs (channel (name r)) context) = rule_handler r context"
      by simp
    from Cons.prems(2) b True obtain res where
      res: "snd (callHook hs (channel (name r)) context) = Inr res"
      and rest: "snd (run_rules hs context rl (push_result errs res)) = Inr out"
      by (auto split: prod.splits sum.splits)
    from h res obtain ds where ds: "validate r context = Inr ds" and "res = Some ds"
      by (auto simp: rule_handler_def split: sum.splits)
    with rest have "snd (run_rules hs context rl (errs @ ds)) = Inr out"
      by (simp add: push_result_Some)
    from Cons.IH[OF all this] have "out = (errs @ ds) @ emitted context rl" .
    with b True ds show ?thesis by (simp add: emitted_def applicable_def diagnostics_def)
  qed
qed

lemma validate_result_run_rules:
  "snd (validator_validate v input) = Inr res \<Longrightarrow>
   snd (run_rules (hooks v) (parseInput input) (rules v) []) = Inr (errors res)"
  by (auto simp: validator_validate_def Let_def split: prod.splits sum.splits)

lemma errors_emitted:
  assumes "distinct (map name rs)"
      and "snd (validator_validate (registered rs) input) = Inr res"
  shows "errors res = emitted (parseInput input) rs"
proof -
  have "\<forall>r\<in>set rs. snd (callHook (hooks (registered rs)) (channel (name r)) (parseInput input))
          = rule_handler r (parseInput input)"
    by (simp add: callHook_distinct[OF assms(1)])
  moreover from validate_result_run_rules[OF assms(2)]
  have "snd (run_rules (hooks (registered rs)) (parseInput input) rs []) = Inr (errors res)"
    by (simp add: rules_registered)
  ultimately have "errors res = [] @ emitted (parseInput input) rs"
    by (rule run_rules_emitted)
  then show ?thesis by simp
qed

lemma emitted_append: "emitted context (xs @ ys) = emitted context xs @ emitted context ys"
  by (simp add: emitted_def)

lemma emitted_Cons_applicable:
  "shouldRun r context = Inr True \<Longrightarrow> validate r context = Inr ds \<Longrightarrow>
   emitted context (r # rs) = ds @ emitted context rs"
  by (simp add: emitted_def applicable_def diagnostics_def)

lemma run_rules_Inr:
  "snd (run_rules hs context rl errs) = Inr out \<Longrightarrow> r \<in> set rl \<Longrightarrow>
   \<exists>b. shouldRun r context = Inr b \<and>
       (b \<longrightarrow> (\<exists>x. snd (callHook hs (channel (name r)) context) = Inr x))"
proof (induction rl arbitrary: errs)
  case Nil
  then show ?case by simp
next
  case (Cons a rl)
  from Cons.prems(1) obtain b where b: "shouldRun a context = Inr b"
    by (cases "shouldRun a context") auto
  have "(\<exists>errs'. snd (run_rules hs context rl errs') = Inr out) \<and>
        (b \<longrightarrow> (\<exists>x. snd (callHook hs (channel (name a)) context) = Inr x))"
  proof (cases b)
    case False
    with Cons.prems(1) b show ?thesis by auto
  next
    case True
    obtain fired res where c: "callHook hs (channel (name a)) context = (fired, res)"
      by (cases "callHook hs (channel (name a)) context")
    with Cons.prems(1) b True obtain x where x: "res = Inr x"
      by (cases res) auto
    obtain fired' r' where rr: "run_rules hs context rl (push_result errs x) = (fired', r')"
      by (cases "run_rules hs context rl (push_result errs x)")
    with Cons.prems(1) b True c x have "r' = Inr out" by simp
    with rr have "snd (run_rules hs context rl (push_result errs x)) = Inr out" by simp
    with c x show ?thesis by auto
  qed
  then obtain errs' where rest: "snd (run_rules hs context rl errs') = Inr out"
    and call: "b \<longrightarrow> (\<exists>x. snd (callHook hs (channel (name a)) context) = Inr x)"
    by blast
  show ?case
  proof (cases "r = a")
    case True
    with b call show ?thesis by blast
  next
    case False
    with Cons.prems(2) have "r \<in> set rl" by simp
    from Cons.IH[OF rest this] show ?thesis .
  qed
qed

lemma callHook_Inr_rule:
  assumes "r \<in> set rs"
      and "snd (callHook (hooks (registered rs)) (channel (name r)) context) = Inr x"
  shows "\<exists>ds. validate r context = Inr ds"
proof -
  have "rule_handler r \<in> set (map rule_handler (filter (\<lambda>r'. name r' = name r) rs))"
    using assms(1) by simp
  from serial_Inr_all[OF assms(2)[unfolded callHook_def handlers_of_registered] this]
  show ?thesis by (auto simp: rule_handler_def split: sum.splits)
qed


section \<open>Exceptions and traces of a validation\<close>

lemma serial_Inl_origin:
  "snd (serialTaskCaller nm fs context acc) = Inl e \<Longrightarrow> \<exists>f\<in>set fs. f context = Inl e"
proof (induction fs arbitrary: acc)
  case Nil
  then show ?case by simp
next
  case (Cons a fs)
  show ?case
  proof (cases "a context")
    case (Inl x)
    with Cons.prems have "x = e" by simp
    with Inl show ?thesis by simp
  next
    case (Inr v)
    with Cons.prems have "snd (serialTaskCaller nm fs context v) = Inl e"
      by (simp split: prod.splits)
    from Cons.IH[OF this] show ?thesis by auto
  qed
qed

lemma handlers_of_registered_subset:
  "f \<in> set (handlers_of (hooks (registered rs)) nm) \<Longrightarrow> \<exists>r\<in>set rs. f = rule_handler r"
  by (auto simp: hooks_registered handlers_of_def)

lemma callHook_Inl_origin:
  assumes "snd (callHook (hooks (registered rs)) nm context) = Inl e"
  shows "\<exists>r\<in>set rs. validate r context = Inl e"
proof -
  from serial_Inl_origin[OF assms[unfolded callHook_def]]
  obtain f where "f \<in> set (handlers_of (hooks (registered rs)) nm)" and f: "f context = Inl e"
    by blast
  with handlers_of_registered_subset obtain r where "r \<in> set rs" and "f = rule_handler r"
    by blast
  with f show ?thesis by (auto simp: rule_handler_def split: sum.splits)
qed

lemma run_rules_Inl_origin:
  "snd (run_rules hs context rl errs) = Inl e \<Longrightarrow>
   (\<exists>r\<in>set rl. shouldRun r context = Inl e) \<or>
   (\<exists>r\<in>set rl. snd (callHook hs (channel (name r)) context) = Inl e)"
proof (induction rl arbitrary: errs)
  case Nil
  then show ?case by simp
next
  case (Cons a rl)
  show ?case
  proof (cases "shouldRun a context")
    case (Inl x)
    with Cons.prems have "x = e" by simp
    with Inl show ?thesis by simp
  next
    case (Inr b)
    show ?thesis
    proof (cases b)
      case False
      with Inr Cons.prems have "snd (run_rules hs context rl errs) = Inl e" by simp
      from Cons.IH[OF this] show ?thesis by auto
    next
      case True
      obtain fired res where c: "callHook hs (channel (name a)) context = (fired, res)"
        by (cases "callHook hs (channel (name a)) context")
      show ?thesis
      proof (cases res)
        case (Inl x)
        with Cons.prems Inr True c have "x = e" by simp
        with Inl c show ?thesis by simp
      next
        case (Inr result)
        with Cons.prems \<open>shouldRun a context = Inr b\<close> True c
        have "snd (run_rules hs context rl (push_result errs result)) = Inl e"
          by (simp split: prod.splits)
        from Cons.IH[OF this] show ?thesis by auto
      qed
    qed
  qed
qed

lemma validate_Inl_cases:
  "snd (validator_validate v input) = Inl e \<Longrightarrow>
   snd (callHook (hooks v) ''validate:before'' (parseInput input)) = Inl e \<or>
   snd (run_rules (hooks v) (parseInput input) (rules v) []) = Inl e \<or>
   snd (callHook (hooks v) ''validate:after'' (parseInput input)) = Inl e"
  by (auto simp: validator_validate_def Let_def split: prod.splits sum.splits)

lemma validate_Inl_origin:
  assumes "snd (validator_validate (registered rs) input) = Inl e"
  shows "\<exists>r\<in>set rs. shouldRun r (parseInput input) = Inl e \<or> validate r (parseInput input) = Inl e"
proof -
  from validate_Inl_cases[OF assms]
  consider "snd (callHook (hooks (registered rs)) ''validate:before'' (parseInput input)) = Inl e"
    | "snd (run_rules (hooks (registered rs)) (parseInput input) rs []) = Inl e"
    | "snd (callHook (hooks (registered rs)) ''validate:after'' (parseInput input)) = Inl e"
    by (auto simp: rules_registered)
  then show ?thesis
  proof cases
    case 1
    from callHook_Inl_origin[OF this] show ?thesis by blast
  next
    case 2
    from run_rules_Inl_origin[OF this] show ?thesis
      using callHook_Inl_origin by blast
  next
    case 3
    from callHook_Inl_origin[OF this] show ?thesis by blast
  qed
qed

lemma run_rules_returns:
  "\<forall>p\<in>set rl. \<exists>b. shouldRun p context = Inr b \<and>
       (b \<longrightarrow> (\<exists>x. snd (callHook hs (channel (name p)) context) = Inr x)) \<Longrightarrow>
   \<exists>t out. run_rules hs context rl errs = (t, Inr out)"
proof (induction rl arbitrary: errs)
  case Nil
  then show ?case by simp
next
  case (Cons a rl)
  from Cons.prems obtain b where b: "shouldRun a context = Inr b"
    and call: "b \<longrightarrow> (\<exists>x. snd (callHook hs (channel (name a)) context) = Inr x)"
    by auto
  from Cons.prems have rest: "\<forall>p\<in>set rl. \<exists>b. shouldRun p context = Inr b \<and>
       (b \<longrightarrow> (\<exists>x. snd (callHook hs (channel (name p)) context) = Inr x))" by simp
  show ?case
  proof (cases b)
    case False
    with b Cons.IH[OF rest, of errs] show ?thesis by simp
  next
    case True
    with call obtain fired x where c: "callHook hs (channel (name a)) context = (fired, Inr x)"
      by (cases "callHook hs (channel (name a)) context") auto
    from Cons.IH[OF rest, of "push_result errs x"] obtain t out where
      "run_rules hs context rl (push_result errs x) = (t, Inr out)" by blast
    with b True c show ?thesis by simp
  qed
qed

lemma run_rules_append_Inr:
  "run_rules hs context xs errs = (t, Inr out) \<Longrightarrow>
   run_rules hs context (xs @ ys) errs =
     (case run_rules hs context ys out of (t', r) \<Rightarrow> (t @ t', r))"
proof (induction xs arbitrary: errs t)
  case Nil
  then show ?case by (simp split: prod.splits)
next
  case (Cons a xs)
  from Cons.prems obtain b where b: "shouldRun a context = Inr b"
    by (cases "shouldRun a context") auto
  show ?case
  proof (cases b)
    case False
    with b Cons.prems have "run_rules hs context xs errs = (t, Inr out)" by simp
    from Cons.IH[OF this] b False show ?thesis by simp
  next
    case True
    obtain fired res where c: "callHook hs (channel (name a)) context = (fired, res)"
      by (cases "callHook hs (channel (name a)) context")
    with Cons.prems b True obtain x where x: "res = Inr x" by (cases res) auto
    obtain t1 r1 where rr: "run_rules hs context xs (push_result errs x) = (t1, r1)"
      by (cases "run_rules hs context xs (push_result errs x)")
    with Cons.prems b True c x have "t = fired @ t1" and "r1 = Inr out" by simp_all
    with rr have "run_rules hs context xs (push_result errs x) = (t1, Inr out)" by simp
    from Cons.IH[OF this] b True c x \<open>t = fired @ t1\<close> show ?thesis
      by (simp split: prod.splits)
  qed
qed

lemma validate_rules_throw:
  "snd (callHook (hooks v) ''validate:before'' (parseInput input)) = Inr x \<Longrightarrow>
   snd (run_rules (hooks v) (parseInput input) (rules v) []) = Inl e \<Longrightarrow>
   snd (validator_validate v input) = Inl e"
  by (auto simp: validator_validate_def Let_def split: prod.splits sum.splits)

lemma first_thrower:
  assumes d: "distinct (map name (pre @ r # post))"
      and nb: "''before'' \<notin> set (map name (pre @ r # post))"
      and pre: "\<forall>p\<in>set pre. \<exists>b. shouldRun p (parseInput input) = Inr b \<and>
                  (b \<longrightarrow> (\<exists>ds. validate p (parseInput input) = Inr ds))"
      and thr: "shouldRun r (parseInput input) = Inl e \<or>
           (shouldRun r (parseInput input) = Inr True \<and> validate r (parseInput input) = Inl e)"
  shows "snd (validator_validate (registered (pre @ r # post)) input) = Inl e"
proof -
  let ?rs = "pre @ r # post"
  let ?hs = "hooks (registered ?rs)"
  let ?c = "parseInput input"
  from nb have "\<forall>x\<in>set ?rs. name x \<noteq> ''before''"
    by (metis image_eqI set_map)
  then have "filter (\<lambda>x. name x = ''before'') ?rs = []"
    unfolding filter_empty_conv by blast
  then have "handlers_of ?hs ''validate:before'' = []"
    by (simp only: handlers_lifecycle list.map)
  then have before: "callHook ?hs ''validate:before'' ?c = ([], Inr None)"
    by (simp add: callHook_def)
  have own: "\<And>p. p \<in> set ?rs \<Longrightarrow>
      callHook ?hs (channel (name p)) ?c = ([(channel (name p), rule_handler p)], rule_handler p ?c)"
    using callHook_distinct[OF d] by blast
  have "\<forall>p\<in>set pre. \<exists>b. shouldRun p ?c = Inr b \<and>
       (b \<longrightarrow> (\<exists>x. snd (callHook ?hs (channel (name p)) ?c) = Inr x))"
  proof
    fix p assume p: "p \<in> set pre"
    with pre obtain b where b: "shouldRun p ?c = Inr b"
      and v: "b \<longrightarrow> (\<exists>ds. validate p ?c = Inr ds)" by blast
    from p have "p \<in> set ?rs" by simp
    from own[OF this] v have "b \<longrightarrow> (\<exists>x. snd (callHook ?hs (channel (name p)) ?c) = Inr x)"
      by (auto simp: rule_handler_def)
    with b show "\<exists>b. shouldRun p ?c = Inr b \<and>
       (b \<longrightarrow> (\<exists>x. snd (callHook ?hs (channel (name p)) ?c) = Inr x))" by blast
  qed
  from run_rules_returns[OF this, of "[]"] obtain t out where
    "run_rules ?hs ?c pre [] = (t, Inr out)" by blast
  from run_rules_append_Inr[OF this, of "r # post"]
  have app: "run_rules ?hs ?c ?rs [] =
     (case run_rules ?hs ?c (r # post) out of (t', x) \<Rightarrow> (t @ t', x))" .
  have "r \<in> set ?rs" by simp
  from own[OF this] thr have "snd (run_rules ?hs ?c (r # post) out) = Inl e"
    by (auto simp: rule_handler_def)
  with app have "snd (run_rules ?hs ?c ?rs []) = Inl e"
    by (simp split: prod.splits)
  with before validate_rules_throw[of "registered ?rs" input None e] show ?thesis
    by (simp add: rules_registered)
qed

lemma fired_on_append: "fired_on n (xs @ ys) = fired_on n xs @ fired_on n ys"
  by (simp add: fired_on_def)

lemma fired_on_Cons_same: "name r = n \<Longrightarrow> fired_on n (r # xs) = (channel n, rule_handler r) # fired_on n xs"
  by (simp add: fired_on_def)

lemma callHook_registered_all_return:
  assumes "\<forall>r\<in>set rs. name r = n \<longrightarrow> (\<exists>ds. validate r context = Inr ds)"
  shows "fst (callHook (hooks (registered rs)) (channel n) context) = fired_on n rs"
proof -
  have "\<forall>f\<in>set (map rule_handler (filter (\<lambda>r. name r = n) rs)). \<exists>v. f context = Inr v"
    using assms by (auto simp: rule_handler_def)
  from serial_all_ok_ex[OF this, of "channel n" None] show ?thesis
    unfolding callHook_def handlers_of_registered fired_on_def
    by (auto simp: comp_def)
qed

lemma callHook_registered_Inr_trace:
  assumes "snd (callHook (hooks (registered rs)) (channel n) context) = Inr x"
  shows "fst (callHook (hooks (registered rs)) (channel n) context) = fired_on n rs"
proof -
  have "\<forall>r\<in>set rs. name r = n \<longrightarrow> (\<exists>ds. validate r context = Inr ds)"
  proof (intro ballI impI)
    fix r assume "r \<in> set rs" and "name r = n"
    then have "rule_handler r \<in> set (map rule_handler (filter (\<lambda>r'. name r' = n) rs))" by simp
    from serial_Inr_all[OF assms[unfolded callHook_def handlers_of_registered] this]
    show "\<exists>ds. validate r context = Inr ds"
      by (auto simp: rule_handler_def split: sum.splits)
  qed
  then show ?thesis by (rule callHook_registered_all_return)
qed

lemma run_rules_trace:
  "snd (run_rules hs context rl errs) = Inr out \<Longrightarrow>
   fst (run_rules hs context rl errs) =
     concat (map (\<lambda>r. fst (callHook hs (channel (name r)) context))
                 (filter (applicable context) rl))"
proof (induction rl arbitrary: errs)
  case Nil
  then show ?case by simp
next
  case (Cons a rl)
  from Cons.prems obtain b where b: "shouldRun a context = Inr b"
    by (cases "shouldRun a context") auto
  show ?case
  proof (cases b)
    case False
    with b Cons.prems have "snd (run_rules hs context rl errs) = Inr out" by simp
    from Cons.IH[OF this] b False show ?thesis by (simp add: applicable_def)
  next
    case True
    obtain fired res where c: "callHook hs (channel (name a)) context = (fired, res)"
      by (cases "callHook hs (channel (name a)) context")
    with Cons.prems b True obtain x where x: "res = Inr x" by (cases res) auto
    obtain t1 r1 where rr: "run_rules hs context rl (push_result errs x) = (t1, r1)"
      by (cases "run_rules hs context rl (push_result errs x)")
    with Cons.prems b True c x have "r1 = Inr out" by simp
    with rr have "snd (run_rules hs context rl (push_result errs x)) = Inr out" by simp
    from Cons.IH[OF this] rr b True c x show ?thesis by (simp add: applicable_def)
  qed
qed

lemma validate_Inr_parts:
  "snd (validator_validate v input) = Inr res \<Longrightarrow>
   (\<exists>x. snd (callHook (hooks v) ''validate:before'' (parseInput input)) = Inr x) \<and>
   (\<exists>out. snd (run_rules (hooks v) (parseInput input) (rules v) []) = Inr out) \<and>
   (\<exists>y. snd (callHook (hooks v) ''validate:after'' (parseInput input)) = Inr y) \<and>
   fst (validator_validate v input) =
     fst (callHook (hooks v) ''validate:before'' (parseInput input)) @
     fst (run_rules (hooks v) (parseInput input) (rules v) []) @
     fst (callHook (hooks v) ''validate:after'' (parseInput input))"
  by (auto simp: validator_validate_def Let_def split: prod.splits sum.splits)

lemma validation_trace:
  assumes "snd (validator_validate (registered rs) input) = Inr res"
  shows "fst (validator_validate (registered rs) input) =
     fired_on ''before'' rs @
     concat (map (\<lambda>r. fired_on (name r) rs) (filter (applicable (parseInput input)) rs)) @
     fired_on ''after'' rs"
proof -
  let ?hs = "hooks (registered rs)"
  let ?c = "parseInput input"
  from validate_Inr_parts[OF assms] obtain x out y where
    b: "snd (callHook ?hs ''validate:before'' ?c) = Inr x"
    and r: "snd (run_rules ?hs ?c rs []) = Inr out"
    and a: "snd (callHook ?hs ''validate:after'' ?c) = Inr y"
    and t: "fst (validator_validate (registered rs) input) =
       fst (callHook ?hs ''validate:before'' ?c) @ fst (run_rules ?hs ?c rs []) @
       fst (callHook ?hs ''validate:after'' ?c)"
    by (auto simp: rules_registered)
  have cb: "channel ''before'' = ''validate:before''" and ca: "channel ''after'' = ''validate:after''"
    by (simp_all add: channel_def)
  from callHook_registered_Inr_trace[of rs "''before''" ?c x] b cb
  have tb: "fst (callHook ?hs ''validate:before'' ?c) = fired_on ''before'' rs" by simp
  from callHook_registered_Inr_trace[of rs "''after''" ?c y] a ca
  have ta: "fst (callHook ?hs ''validate:after'' ?c) = fired_on ''after'' rs" by simp
  have "map (\<lambda>r. fst (callHook ?hs (channel (name r)) ?c)) (filter (applicable ?c) rs) =
        map (\<lambda>r. fired_on (name r) rs) (filter (applicable ?c) rs)"
  proof (rule map_cong[OF refl])
    fix q assume "q \<in> set (filter (applicable ?c) rs)"
    then have q: "q \<in> set rs" and ap: "shouldRun q ?c = Inr True"
      by (simp_all add: applicable_def)
    from run_rules_Inr[OF r q] ap obtain z where
      "snd (callHook ?hs (channel (name q)) ?c) = Inr z" by auto
    then show "fst (callHook ?hs (channel (name q)) ?c) = fired_on (name q) rs"
      by (rule callHook_registered_Inr_trace)
  qed
  with run_rules_trace[OF r] have "fst (run_rules ?hs ?c rs []) =
      concat (map (\<lambda>r. fired_on (name r) rs) (filter (applicable ?c) rs))" by simp
  with t tb ta show ?thesis by simp
qed

section \<open>Rule discovery, rendering and the project root\<close>

lemma typeof_string: "js_typeof v = ''string'' \<longleftrightarrow> (\<exists>s. v = JString s)"
  by (cases v) simp_all
lemma typeof_function: "js_typeof v = ''function'' \<longleftrightarrow> (\<exists>f. v = JFunction f)"
  by (cases v) simp_all

lemma typeof_get_string:
  "js_typeof (get_property (JObject props) key) = ''string'' \<longleftrightarrow> has_string props key"
  by (cases "map_of props key") (auto simp: typeof_string split: jsval.splits)

lemma typeof_get_function:
  "js_typeof (get_property (JObject props) key) = ''function'' \<longleftrightarrow> has_function props key"
  by (cases "map_of props key") (auto simp: typeof_function split: jsval.splits)

lemma isValidationRule_structural: "isValidationRule v = passes_structural_check v"
proof (cases v)
  case (JObject props)
  have "isValidationRule (JObject props) =
          (has_string props ''name'' \<and> has_string props ''description'' \<and>
           has_function props ''shouldRun'' \<and> has_function props ''validate'')"
    unfolding isValidationRule_def typeof_get_string typeof_get_function
    by simp
  with JObject show ?thesis by (simp add: passes_structural_check_def)
qed (simp_all add: isValidationRule_def passes_structural_check_def)

lemma collect_exports_filter: "collect_exports xs found = found @ filter isValidationRule xs"
  by (induction xs arbitrary: found) simp_all

lemma load_files_eq:
  "load_files env files (console, found) =
     (console @ concat (map (load_warning env) files),
      found @ concat (map (exports_collected env) files))"
proof (induction files arbitrary: console found)
  case Nil
  then show ?case by simp
next
  case (Cons f files)
  show ?case
    by (cases "import_module env f")
       (simp_all add: Cons.IH load_warning_def exports_collected_def collect_exports_filter)
qed

lemma loadRules_glob_fails:
  "glob env (rule_pattern dir) rule_glob_options = Inl e \<Longrightarrow>
   loadRules env dir = ([ConsoleError ''Error loading rules:'' e], Inr [])"
  by (simp add: loadRules_def loadRules_try_def)

lemma loadRules_glob_ok:
  "glob env (rule_pattern dir) rule_glob_options = Inr files \<Longrightarrow>
   loadRules env dir =
     (concat (map (load_warning env) files), Inr (concat (map (exports_collected env) files)))"
  by (simp add: loadRules_def loadRules_try_def load_files_eq)

lemma loadRules_returns: "\<exists>rs. snd (loadRules env dir) = Inr rs"
  by (cases "glob env (rule_pattern dir) rule_glob_options")
     (simp_all add: loadRules_glob_fails loadRules_glob_ok)

lemma join_contains: "d \<in> set xs \<Longrightarrow> \<exists>pre post. join sep xs = pre @ d @ post"
proof (induction sep xs rule: join.induct)
  case (1 sep)
  then show ?case by simp
next
  case (2 sep x)
  then have "join sep [x] = [] @ d @ []" by simp
  then show ?case by blast
next
  case (3 sep x y ys)
  show ?case
  proof (cases "d = x")
    case True
    then have "join sep (x # y # ys) = [] @ d @ (sep @ join sep (y # ys))" by simp
    then show ?thesis by blast
  next
    case False
    with 3 obtain pre post where "join sep (y # ys) = pre @ d @ post" by auto
    then have "join sep (x # y # ys) = (x @ sep @ pre) @ d @ post" by simp
    then show ?thesis by blast
  qed
qed

lemma join_Cons: "join sep (d # ds) = d @ concat (map (\<lambda>e. sep @ e) ds)"
  by (induction ds arbitrary: d) simp_all

lemma findProjectRoot_root: "findProjectRoot ex [] = None"
  by (subst findProjectRoot.simps) (simp add: root_def)

lemma findProjectRoot_snoc:
  "findProjectRoot ex (p @ [s]) =
     (if ex (p @ [s, ''.claude'']) then Some (p @ [s]) else findProjectRoot ex p)"
  by (subst findProjectRoot.simps) (simp add: root_def join_path_def dirname_def)

lemma findProjectRoot_Some:
  "findProjectRoot ex start = Some d \<Longrightarrow>
   prefix d start \<and> d \<noteq> [] \<and> contains_claude ex d \<and>
   (\<forall>d'. prefix d' start \<and> length d < length d' \<longrightarrow> \<not> contains_claude ex d')"
proof (induction start rule: rev_induct)
  case Nil
  then show ?case by (simp add: findProjectRoot_root)
next
  case (snoc s p)
  show ?case
  proof (cases "ex (p @ [s, ''.claude''])")
    case True
    with snoc.prems have "d = p @ [s]" by (simp add: findProjectRoot_snoc)
    with True show ?thesis
      by (auto simp: contains_claude_def join_path_def dest: prefix_length_le)
  next
    case False
    with snoc.prems have "findProjectRoot ex p = Some d" by (simp add: findProjectRoot_snoc)
    from snoc.IH[OF this] False show ?thesis
      by (auto simp: contains_claude_def join_path_def)
  qed
qed

lemma findProjectRoot_None:
  "findProjectRoot ex start = None \<longleftrightarrow>
   (\<forall>d. prefix d start \<and> d \<noteq> [] \<longrightarrow> \<not> contains_claude ex d)"
proof (induction start rule: rev_induct)
  case Nil
  then show ?case by (simp add: findProjectRoot_root)
next
  case (snoc s p)
  then show ?case
    by (auto simp: findProjectRoot_snoc contains_claude_def join_path_def)
qed


section \<open>The claims\<close>

subsection \<open>C1: a rule named before runs although it is not applicable\<close>

text \<open>
  C1. The claim: on a context on which no registered rule's \<open>shouldRun\<close> returns true,
  \<open>validate\<close> returns a result with \<open>valid = true\<close> and \<open>errors = []\<close>. The engine does
  so for a rule of any other name, here \<open>skipped-throws\<close>: the rule loop does not call a
  rule whose \<open>shouldRun\<close> returned false, no handler is called, and the result is valid.
  For the same rule under the name \<open>before\<close> it does not: \<open>registerRule\<close> has bound the
  rule's handler to \<open>validate:before\<close>, the channel that \<open>validate\<close> calls before the loop,
  so the rule's \<open>validate\<close> runs although its \<open>shouldRun\<close> returns false, and its
  exception ends the call.
\<close>

theorem lifecycle_named_rule_runs_unguarded:
  "shouldRun before_rule (parseInput write_input) = Inr False \<and>
   validator_validate (registered [before_rule]) write_input =
     ([(''validate:before'', rule_handler before_rule)], Inl (Exn ''boom'')) \<and>
   shouldRun skipped_throws (parseInput write_input) = Inr False \<and>
   validate skipped_throws (parseInput write_input) = validate before_rule (parseInput write_input) \<and>
   validator_validate (registered [skipped_throws]) write_input =
     ([], Inr \<lparr> valid = True, errors = [] \<rparr>)"
  by (simp add: before_rule_def skipped_throws_def validator_validate_def registered_def createValidator_def registerRule_def hook_def channel_def callHook_def handlers_of_def rule_handler_def push_result_def parseInput_def js_or_def js_or_empty_def)

subsection \<open>C2: diagnostics come in registration order\<close>

text \<open>
  C2. On an engine whose registered rules have pairwise distinct names, let rule A be
  registered before rule B, both applicable on the context, A returning the diagnostics
  \<open>dA\<close> and B the diagnostics \<open>dB\<close>. Then the \<open>errors\<close> of the result that the
  validation returns are the diagnostics of the applicable rules before A, then \<open>dA\<close>, then those of the applicable rules
  between A and B, then \<open>dB\<close>, then those of the applicable rules after B, each in its
  emission order; a rule whose \<open>shouldRun\<close> returns false contributes nothing.
\<close>

theorem errors_in_registration_order:
  assumes "distinct (map name (pre @ A # mid @ B # post))"
      and "shouldRun A (parseInput input) = Inr True"
      and "validate A (parseInput input) = Inr dA"
      and "shouldRun B (parseInput input) = Inr True"
      and "validate B (parseInput input) = Inr dB"
      and "snd (validator_validate (registered (pre @ A # mid @ B # post)) input) = Inr res"
  shows "errors res =
           emitted (parseInput input) pre @ dA @ emitted (parseInput input) mid @ dB
           @ emitted (parseInput input) post"
  using errors_emitted[OF assms(1) assms(6)] assms(2-5)
  by (simp add: emitted_append emitted_Cons_applicable)

theorem errors_in_registration_order_witness:
  "distinct (map name ([] @ rule_a # [rule_skipped] @ rule_b # [])) \<and>
   snd (validator_validate (registered ([] @ rule_a # [rule_skipped] @ rule_b # [])) write_input) =
     Inr \<lparr> valid = False, errors = [''a1'', ''a2'', ''b1''] \<rparr> \<and>
   emitted (parseInput write_input) [rule_skipped] = [] \<and>
   errors \<lparr> valid = False, errors = [''a1'', ''a2'', ''b1''] \<rparr> =
     emitted (parseInput write_input) [] @ [''a1'', ''a2'']
     @ emitted (parseInput write_input) [rule_skipped] @ [''b1'']
     @ emitted (parseInput write_input) []"
proof -
  have d: "distinct (map name ([] @ rule_a # [rule_skipped] @ rule_b # []))"
    by (simp add: rule_a_def rule_b_def rule_skipped_def)
  have sa: "shouldRun rule_a (parseInput write_input) = Inr True"
    and va: "validate rule_a (parseInput write_input) = Inr [''a1'', ''a2'']"
    and sb: "shouldRun rule_b (parseInput write_input) = Inr True"
    and vb: "validate rule_b (parseInput write_input) = Inr [''b1'']"
    by (simp_all add: rule_a_def rule_b_def)
  have r: "snd (validator_validate (registered ([] @ rule_a # [rule_skipped] @ rule_b # []))
             write_input) = Inr \<lparr> valid = False, errors = [''a1'', ''a2'', ''b1''] \<rparr>"
    by (simp add: rule_a_def rule_b_def rule_skipped_def validator_validate_def registered_def createValidator_def registerRule_def hook_def channel_def callHook_def handlers_of_def rule_handler_def push_result_def parseInput_def js_or_def js_or_empty_def)
  have e: "emitted (parseInput write_input) [rule_skipped] = []"
    by (simp add: emitted_def applicable_def rule_skipped_def)
  from d r e errors_in_registration_order[OF d sa va sb vb r] show ?thesis by blast
qed

text \<open>
  As stated, for every pair of rules, the claim fails when two rules share a name: the
  channel of the shared name runs both handlers and resolves to the value of the last
  one. With A and B both applicable, A's diagnostics are lost and B's come twice; with A
  applicable and C not, C's diagnostics are in the result and A's are not.
\<close>

theorem errors_duplicate_names_counterexample:
  "shouldRun dup_a (parseInput write_input) = Inr True \<and>
   validate dup_a (parseInput write_input) = Inr [''a''] \<and>
   shouldRun dup_b (parseInput write_input) = Inr True \<and>
   validate dup_b (parseInput write_input) = Inr [''b''] \<and>
   snd (validator_validate (registered [dup_a, dup_b]) write_input) =
     Inr \<lparr> valid = False, errors = [''b'', ''b''] \<rparr> \<and>
   shouldRun dup_off (parseInput write_input) = Inr False \<and>
   snd (validator_validate (registered [dup_a, dup_off]) write_input) =
     Inr \<lparr> valid = False, errors = [''c''] \<rparr>"
  by (simp add: dup_a_def dup_b_def dup_off_def validator_validate_def registered_def createValidator_def registerRule_def hook_def channel_def callHook_def handlers_of_def rule_handler_def push_result_def parseInput_def js_or_def js_or_empty_def)

subsection \<open>C3: an exception of a rule reaches the caller\<close>

text \<open>
  C3. If a registered rule's \<open>shouldRun\<close> throws on the context, or the rule is
  applicable and its \<open>validate\<close> throws, the engine's \<open>validate\<close> returns no
  ValidationResult: it throws, and the exception it throws is one that a registered
  rule's \<open>shouldRun\<close> or \<open>validate\<close> threw on that context, never another one. When the
  names of the rules are distinct, none is \<open>before\<close>, and the rules registered before
  the throwing rule have run without an exception, the exception that reaches the caller
  is the very exception of that rule, whatever the rules after it would do.
\<close>

theorem rule_exception_propagates:
  assumes "r \<in> set rs"
      and "shouldRun r (parseInput input) = Inl e \<or>
           (shouldRun r (parseInput input) = Inr True \<and> validate r (parseInput input) = Inl e)"
  shows "(\<exists>e'. snd (validator_validate (registered rs) input) = Inl e' \<and>
               (\<exists>r'\<in>set rs. shouldRun r' (parseInput input) = Inl e' \<or>
                            validate r' (parseInput input) = Inl e')) \<and>
         (\<forall>pre post.
            rs = pre @ r # post \<and> distinct (map name rs) \<and> ''before'' \<notin> set (map name rs) \<and>
            (\<forall>p\<in>set pre. \<exists>b. shouldRun p (parseInput input) = Inr b \<and>
                              (b \<longrightarrow> (\<exists>ds. validate p (parseInput input) = Inr ds)))
            \<longrightarrow> snd (validator_validate (registered rs) input) = Inl e)"
proof (intro conjI allI impI)
  have "\<exists>e'. snd (validator_validate (registered rs) input) = Inl e'"
  proof (cases "snd (validator_validate (registered rs) input)")
    case (Inl e')
    then show ?thesis by blast
  next
    case (Inr res)
    from validate_result_run_rules[OF Inr]
    have "snd (run_rules (hooks (registered rs)) (parseInput input) rs []) = Inr (errors res)"
      by (simp add: rules_registered)
    from run_rules_Inr[OF this assms(1)] obtain b where
      b: "shouldRun r (parseInput input) = Inr b"
      and call: "b \<longrightarrow> (\<exists>x. snd (callHook (hooks (registered rs)) (channel (name r))
                                     (parseInput input)) = Inr x)"
      by blast
    from assms(2) b have "b" and "validate r (parseInput input) = Inl e" by auto
    with call callHook_Inr_rule[OF assms(1)] show ?thesis by fastforce
  qed
  then obtain e' where e': "snd (validator_validate (registered rs) input) = Inl e'" ..
  from validate_Inl_origin[OF e'] e'
  show "\<exists>e'. snd (validator_validate (registered rs) input) = Inl e' \<and>
               (\<exists>r'\<in>set rs. shouldRun r' (parseInput input) = Inl e' \<or>
                            validate r' (parseInput input) = Inl e')"
    by blast
next
  fix pre post
  assume h: "rs = pre @ r # post \<and> distinct (map name rs) \<and> ''before'' \<notin> set (map name rs) \<and>
            (\<forall>p\<in>set pre. \<exists>b. shouldRun p (parseInput input) = Inr b \<and>
                              (b \<longrightarrow> (\<exists>ds. validate p (parseInput input) = Inr ds)))"
  then have rs: "rs = pre @ r # post" by blast
  from h have "distinct (map name (pre @ r # post))"
    and "''before'' \<notin> set (map name (pre @ r # post))"
    and "\<forall>p\<in>set pre. \<exists>b. shouldRun p (parseInput input) = Inr b \<and>
                              (b \<longrightarrow> (\<exists>ds. validate p (parseInput input) = Inr ds))"
    unfolding rs by blast+
  from first_thrower[OF this assms(2)]
  show "snd (validator_validate (registered rs) input) = Inl e"
    unfolding rs .
qed

theorem rule_exception_propagates_witness:
  "rule_throws \<in> set [rule_a, rule_throws, predicate_throws] \<and>
   shouldRun rule_throws (parseInput write_input) = Inr True \<and>
   validate rule_throws (parseInput write_input) = Inl (Exn ''boom'') \<and>
   shouldRun predicate_throws (parseInput write_input) = Inl (Exn ''bad predicate'') \<and>
   snd (validator_validate (registered [rule_a, rule_throws, predicate_throws]) write_input) =
     Inl (Exn ''boom'')"
proof -
  let ?rs = "[rule_a, rule_throws, predicate_throws]"
  have m: "rule_throws \<in> set ?rs" by simp
  have s: "shouldRun rule_throws (parseInput write_input) = Inr True"
    and v: "validate rule_throws (parseInput write_input) = Inl (Exn ''boom'')"
    and p: "shouldRun predicate_throws (parseInput write_input) = Inl (Exn ''bad predicate'')"
    by (simp_all add: rule_throws_def predicate_throws_def)
  from s v have h: "shouldRun rule_throws (parseInput write_input) = Inl (Exn ''boom'') \<or>
      (shouldRun rule_throws (parseInput write_input) = Inr True \<and>
       validate rule_throws (parseInput write_input) = Inl (Exn ''boom''))"
    by simp
  have dec: "?rs = [rule_a] @ rule_throws # [predicate_throws]" by simp
  have d: "distinct (map name ?rs)" and nb: "''before'' \<notin> set (map name ?rs)"
    by (simp_all add: rule_a_def rule_throws_def predicate_throws_def)
  have pre: "\<forall>p\<in>set [rule_a]. \<exists>b. shouldRun p (parseInput write_input) = Inr b \<and>
                 (b \<longrightarrow> (\<exists>ds. validate p (parseInput write_input) = Inr ds))"
    by (auto simp: rule_a_def)
  from rule_exception_propagates[OF m h] dec d nb pre
  have "snd (validator_validate (registered ?rs) write_input) = Inl (Exn ''boom'')"
    by blast
  with m s v p show ?thesis by blast
qed

subsection \<open>C4: discovery never throws\<close>

text \<open>
  C4. \<open>loadRules\<close> always returns. When the enumeration of the directory throws, it
  writes the error to the console and returns the empty list. Otherwise it writes one
  warning for each candidate file that fails to load, in order, and returns what the
  files that load contribute, in order.
\<close>

theorem loadRules_never_raises:
  "(\<exists>rs. snd (loadRules env dir) = Inr rs) \<and>
   (\<forall>e. glob env (rule_pattern dir) rule_glob_options = Inl e \<longrightarrow>
        loadRules env dir = ([ConsoleError ''Error loading rules:'' e], Inr [])) \<and>
   (\<forall>files. glob env (rule_pattern dir) rule_glob_options = Inr files \<longrightarrow>
        loadRules env dir =
          (concat (map (load_warning env) files),
           Inr (concat (map (exports_collected env) files))))"
  using loadRules_returns loadRules_glob_fails loadRules_glob_ok by blast

theorem loadRules_never_raises_witness:
  "loadRules example_env ''/p/.claude/rules'' =
     ([ConsoleWarn ''Failed to load rule from /p/.claude/rules/broken.ts:'' (Exn ''SyntaxError'')],
      Inr [good_export]) \<and>
   loadRules example_env ''/missing'' =
     ([ConsoleError ''Error loading rules:'' (Exn ''ENOENT'')], Inr [])"
  using loadRules_never_raises[of example_env "''/p/.claude/rules''"]
        loadRules_never_raises[of example_env "''/missing''"]
  by (simp add: example_env_def rule_pattern_def load_warning_def exports_collected_def
      Object_values_def isValidationRule_def good_export_def bad_export_def)

subsection \<open>C5: what discovery collects\<close>

text \<open>
  The check \<open>isValidationRule\<close> accepts exactly the objects with a string \<open>name\<close>, a
  string \<open>description\<close>, a function \<open>shouldRun\<close> and a function \<open>validate\<close>, and from the
  candidate files that the enumeration returns discovery collects, file after file, the
  exported values of each module that loads which pass this check.
\<close>

lemma loadRules_collects_structural:
  "isValidationRule v = passes_structural_check v \<and>
   (glob env (rule_pattern dir) rule_glob_options = Inr files \<longrightarrow>
      snd (loadRules env dir) =
        Inr (concat (map (\<lambda>file. case import_module env file of
                                    Inl e \<Rightarrow> []
                                  | Inr module \<Rightarrow>
                                      filter passes_structural_check (Object_values module))
                         files)))"
proof -
  have "exports_collected env = (\<lambda>file. case import_module env file of
          Inl e \<Rightarrow> [] | Inr module \<Rightarrow> filter passes_structural_check (Object_values module))"
    by (rule ext)
       (simp add: exports_collected_def isValidationRule_structural split: sum.splits
          cong: filter_cong)
  then show ?thesis
    by (simp add: isValidationRule_structural loadRules_glob_ok)
qed


text \<open>
  C5. The claim: discovery collects exactly the exported values that pass the
  structural check, and nothing from a test or spec file. The ignore list that
  \<open>loadRules\<close> gives the enumeration names \<open>.test.ts\<close> and \<open>.spec.ts\<close> files only, while
  its pattern asks for \<open>.ts\<close> and \<open>.js\<close> files. In the directory below, with the rule file
  \<open>rule-a.ts\<close> and the test file \<open>rule-a.test.js\<close>, the test file is a candidate, it is
  loaded, and the rule it exports is collected beside the rule of \<open>rule-a.ts\<close>.
\<close>

theorem test_js_file_collected:
  "suffix ''.js'' ''/p/.claude/rules/rule-a.test.js'' \<and>
   \<not> suffix ''.test.ts'' ''/p/.claude/rules/rule-a.test.js'' \<and>
   \<not> suffix ''.spec.ts'' ''/p/.claude/rules/rule-a.test.js'' \<and>
   glob test_js_env (''/p/.claude/rules'' @ ''/**/*.{ts,js}'')
     \<lparr> absolute = True,
       ignore = [''**/*.test.ts'', ''**/*.spec.ts'', ''**/node_modules/**''] \<rparr> =
     Inr [''/p/.claude/rules/rule-a.ts'', ''/p/.claude/rules/rule-a.test.js''] \<and>
   import_module test_js_env ''/p/.claude/rules/rule-a.test.js'' =
     Inr [(''ruleUnderTest'', test_export)] \<and>
   isValidationRule test_export \<and>
   loadRules test_js_env ''/p/.claude/rules'' = ([], Inr [good_export, test_export])"
  by (simp add: suffix_to_prefix test_js_env_def loadRules_def loadRules_try_def
      rule_pattern_def rule_glob_options_def Object_values_def isValidationRule_def
      good_export_def test_export_def)

subsection \<open>C6: the content of the context\<close>

text \<open>
  C6. The content of the built context is the payload's \<open>content\<close> field when that
  field is present and not the empty string; otherwise it is the \<open>new_string\<close> field
  when that is present; otherwise it is the empty string.
\<close>

theorem content_from_payload:
  "content (parseInput input) =
     (case new_content (tool_input input) of
        Some c \<Rightarrow>
          if c \<noteq> [] then c
          else (case new_string (tool_input input) of Some n \<Rightarrow> n | None \<Rightarrow> [])
      | None \<Rightarrow> (case new_string (tool_input input) of Some n \<Rightarrow> n | None \<Rightarrow> []))"
  by (simp add: parseInput_def Let_def js_or_def js_or_empty_def split: option.splits)

text \<open>
  As stated, with the \<open>content\<close> field taken whenever it is present, the claim fails
  on a payload whose \<open>content\<close> is the empty string and whose \<open>new_string\<close> is not:
  \<open>||\<close> passes over the empty string.
\<close>

theorem content_empty_string_counterexample:
  "new_content (tool_input empty_content_input) = Some [] \<and>
   content (parseInput empty_content_input) = ''x''"
  by (simp add: empty_content_input_def parseInput_def js_or_def js_or_empty_def)

subsection \<open>C7: the old content of the context\<close>

text \<open>
  C7. Every built context carries an \<open>oldContent\<close> value, for a write as for an edit:
  the payload's \<open>old_string\<close> field when it is present, and the empty string otherwise.
\<close>

theorem oldContent_always_present:
  "oldContent (parseInput input) =
     Some (case old_string (tool_input input) of Some s \<Rightarrow> s | None \<Rightarrow> [])"
  by (simp add: parseInput_def Let_def js_or_def js_or_empty_def split: option.splits)

text \<open>
  As stated, with no \<open>oldContent\<close> for a write, the claim fails: the context built
  from a write carries the empty string as its \<open>oldContent\<close>.
\<close>

theorem oldContent_write_counterexample:
  "operation (parseInput write_input) = Write \<and>
   oldContent (parseInput write_input) = Some [] \<and>
   oldContent (parseInput write_input) \<noteq> None"
  by (simp add: write_input_def parseInput_def js_or_def js_or_empty_def)

subsection \<open>C8: rendering the diagnostics\<close>

text \<open>
  C8. \<open>formatErrors\<close> gives the empty string when there are no errors. Otherwise it
  gives the header, which is a line feed, the line of the warning sign, two spaces and
  the words VALIDATION ERRORS with a colon, and a blank line (two line feeds); then the
  first diagnostic; then every further diagnostic, each after a blank line (two line
  feeds). So every diagnostic occurs in the rendering after the header.
\<close>

theorem formatErrors_renders:
  "formatErrors r =
     (case errors r of
        [] \<Rightarrow> []
      | d # ds \<Rightarrow>
          [CHR 0x0A, CHR 0xE2, CHR 0x9A, CHR 0xA0, CHR 0xEF, CHR 0xB8, CHR 0x8F]
          @ ''  VALIDATION ERRORS:'' @ [CHR 0x0A, CHR 0x0A]
          @ d @ concat (map (\<lambda>e. [CHR 0x0A, CHR 0x0A] @ e) ds)) \<and>
   (\<forall>d\<in>set (errors r). \<exists>pre post.
      formatErrors r =
        ([CHR 0x0A, CHR 0xE2, CHR 0x9A, CHR 0xA0, CHR 0xEF, CHR 0xB8, CHR 0x8F]
         @ ''  VALIDATION ERRORS:'' @ [CHR 0x0A, CHR 0x0A]) @ pre @ d @ post)"
proof
  show "formatErrors r =
     (case errors r of
        [] \<Rightarrow> []
      | d # ds \<Rightarrow>
          [CHR 0x0A, CHR 0xE2, CHR 0x9A, CHR 0xA0, CHR 0xEF, CHR 0xB8, CHR 0x8F]
          @ ''  VALIDATION ERRORS:'' @ [CHR 0x0A, CHR 0x0A]
          @ d @ concat (map (\<lambda>e. [CHR 0x0A, CHR 0x0A] @ e) ds))"
  proof -
    have "formatErrors r =
        (case errors r of
           [] \<Rightarrow> []
         | d # ds \<Rightarrow> header @ d @ concat (map (\<lambda>e. blank_line @ e) ds))"
      by (cases "errors r") (simp_all add: formatErrors_def join_Cons)
    then show ?thesis
      by (simp only: header_def blank_line_def append_assoc)
  qed
  have h: "header = [CHR 0x0A, CHR 0xE2, CHR 0x9A, CHR 0xA0, CHR 0xEF, CHR 0xB8, CHR 0x8F]
         @ ''  VALIDATION ERRORS:'' @ [CHR 0x0A, CHR 0x0A]"
    by (simp add: header_def)
  show "\<forall>d\<in>set (errors r). \<exists>pre post.
      formatErrors r =
        ([CHR 0x0A, CHR 0xE2, CHR 0x9A, CHR 0xA0, CHR 0xEF, CHR 0xB8, CHR 0x8F]
         @ ''  VALIDATION ERRORS:'' @ [CHR 0x0A, CHR 0x0A]) @ pre @ d @ post"
  proof
    fix d assume d: "d \<in> set (errors r)"
    then have ne: "errors r \<noteq> []" by auto
    from join_contains[OF d, of blank_line] obtain pre post where
      "join blank_line (errors r) = pre @ d @ post" by blast
    with ne have "formatErrors r = header @ pre @ d @ post"
      by (simp add: formatErrors_def)
    then show "\<exists>pre post. formatErrors r =
        ([CHR 0x0A, CHR 0xE2, CHR 0x9A, CHR 0xA0, CHR 0xEF, CHR 0xB8, CHR 0x8F]
         @ ''  VALIDATION ERRORS:'' @ [CHR 0x0A, CHR 0x0A]) @ pre @ d @ post"
      unfolding h by blast
  qed
qed

theorem formatErrors_renders_witness:
  "formatErrors \<lparr> valid = True, errors = [] \<rparr> = [] \<and>
   formatErrors \<lparr> valid = False, errors = [''a'', ''b''] \<rparr> =
     [CHR 0x0A, CHR 0xE2, CHR 0x9A, CHR 0xA0, CHR 0xEF, CHR 0xB8, CHR 0x8F]
     @ ''  VALIDATION ERRORS:'' @ [CHR 0x0A, CHR 0x0A] @ ''a'' @ [CHR 0x0A, CHR 0x0A] @ ''b'' \<and>
   (\<exists>pre post. formatErrors \<lparr> valid = False, errors = [''a'', ''b''] \<rparr> =
      ([CHR 0x0A, CHR 0xE2, CHR 0x9A, CHR 0xA0, CHR 0xEF, CHR 0xB8, CHR 0x8F]
       @ ''  VALIDATION ERRORS:'' @ [CHR 0x0A, CHR 0x0A]) @ pre @ ''b'' @ post)"
proof -
  let ?E = "\<lparr> valid = True, errors = [] \<rparr>"
  let ?R = "\<lparr> valid = False, errors = [''a'', ''b''] \<rparr>"
  from formatErrors_renders[of ?E] have e: "formatErrors ?E = []" by simp
  from formatErrors_renders[of ?R]
  have f: "formatErrors ?R =
     [CHR 0x0A, CHR 0xE2, CHR 0x9A, CHR 0xA0, CHR 0xEF, CHR 0xB8, CHR 0x8F]
     @ ''  VALIDATION ERRORS:'' @ [CHR 0x0A, CHR 0x0A] @ ''a'' @ [CHR 0x0A, CHR 0x0A] @ ''b''"
    by simp
  from formatErrors_renders[of ?R]
  have g0: "\<forall>d\<in>set (errors ?R). \<exists>pre post. formatErrors ?R =
      ([CHR 0x0A, CHR 0xE2, CHR 0x9A, CHR 0xA0, CHR 0xEF, CHR 0xB8, CHR 0x8F]
       @ ''  VALIDATION ERRORS:'' @ [CHR 0x0A, CHR 0x0A]) @ pre @ d @ post"
    by (rule conjunct2)
  have m: "''b'' \<in> set (errors ?R)" by simp
  from g0 m have g: "\<exists>pre post. formatErrors ?R =
      ([CHR 0x0A, CHR 0xE2, CHR 0x9A, CHR 0xA0, CHR 0xEF, CHR 0xB8, CHR 0x8F]
       @ ''  VALIDATION ERRORS:'' @ [CHR 0x0A, CHR 0x0A]) @ pre @ ''b'' @ post"
    by (rule bspec)
  from e f g show ?thesis by (intro conjI)
qed

subsection \<open>C9: two rules with one name\<close>

text \<open>
  C9. Registering rule A and then rule B with the same name succeeds on any engine:
  both rules are in the registration list and both handlers are on the channel of the
  shared name, A's before B's. On an engine with any rules registered before, between
  and after A and B, invoking the channel of the shared name, when the handlers on it
  return, calls the handlers of all the rules of that name one after the other in
  registration order, A's before B's. And in every validation that returns a result,
  the handlers called are those of the rules named \<open>before\<close>, then, for each applicable
  rule in registration order, those of all the rules of its name in registration order,
  then those of the rules named \<open>after\<close>.
\<close>

theorem same_name_handlers_both_fire:
  "rules (registerRule B (registerRule A v)) = rules v @ [A, B] \<and>
   (name A = name B \<longrightarrow>
      handlers_of (hooks (registerRule B (registerRule A v))) (channel (name A)) =
        handlers_of (hooks v) (channel (name A)) @ [rule_handler A, rule_handler B]) \<and>
   (name A = name B \<and>
    (\<forall>r\<in>set (pre @ A # mid @ B # post). name r = name A \<longrightarrow>
        (\<exists>ds. validate r context = Inr ds)) \<longrightarrow>
      fst (callHook (hooks (registered (pre @ A # mid @ B # post))) (channel (name A)) context) =
        fired_on (name A) pre @ [(channel (name A), rule_handler A)] @
        fired_on (name A) mid @ [(channel (name A), rule_handler B)] @
        fired_on (name A) post) \<and>
   (snd (validator_validate (registered rs) input) = Inr res \<longrightarrow>
      fst (validator_validate (registered rs) input) =
        fired_on ''before'' rs @
        concat (map (\<lambda>r. fired_on (name r) rs) (filter (applicable (parseInput input)) rs)) @
        fired_on ''after'' rs)"
proof (intro conjI impI)
  show "rules (registerRule B (registerRule A v)) = rules v @ [A, B]"
    by (simp add: registerRule_def)
next
  assume "name A = name B"
  then show "handlers_of (hooks (registerRule B (registerRule A v))) (channel (name A)) =
        handlers_of (hooks v) (channel (name A)) @ [rule_handler A, rule_handler B]"
    by (simp add: registerRule_def hook_def handlers_of_def channel_def)
next
  assume h: "name A = name B \<and>
    (\<forall>r\<in>set (pre @ A # mid @ B # post). name r = name A \<longrightarrow>
        (\<exists>ds. validate r context = Inr ds))"
  then have n: "name B = name A" by simp
  from h have "\<forall>r\<in>set (pre @ A # mid @ B # post). name r = name A \<longrightarrow>
        (\<exists>ds. validate r context = Inr ds)" by blast
  from callHook_registered_all_return[OF this]
  show "fst (callHook (hooks (registered (pre @ A # mid @ B # post))) (channel (name A)) context) =
        fired_on (name A) pre @ [(channel (name A), rule_handler A)] @
        fired_on (name A) mid @ [(channel (name A), rule_handler B)] @
        fired_on (name A) post"
    by (simp add: fired_on_append fired_on_Cons_same n)
next
  assume "snd (validator_validate (registered rs) input) = Inr res"
  then show "fst (validator_validate (registered rs) input) =
        fired_on ''before'' rs @
        concat (map (\<lambda>r. fired_on (name r) rs) (filter (applicable (parseInput input)) rs)) @
        fired_on ''after'' rs"
    by (rule validation_trace)
qed

theorem same_name_handlers_both_fire_witness:
  "name dup_a = name dup_b \<and>
   rules (registerRule dup_b (registerRule dup_a createValidator)) = [dup_a, dup_b] \<and>
   fst (callHook (hooks (registered ([rule_a] @ dup_a # [rule_skipped] @ dup_b # [rule_b])))
          ''validate:dup'' (parseInput write_input)) =
     [(''validate:dup'', rule_handler dup_a), (''validate:dup'', rule_handler dup_b)] \<and>
   validator_validate (registered [dup_a, rule_skipped, dup_b]) write_input =
     ([(''validate:dup'', rule_handler dup_a), (''validate:dup'', rule_handler dup_b),
       (''validate:dup'', rule_handler dup_a), (''validate:dup'', rule_handler dup_b)],
      Inr \<lparr> valid = False, errors = [''b'', ''b''] \<rparr>)"
proof -
  let ?c = "parseInput write_input"
  let ?T = "[(''validate:dup'', rule_handler dup_a), (''validate:dup'', rule_handler dup_b)]"
  have n: "name dup_a = name dup_b" by (simp add: dup_a_def dup_b_def)
  have ch: "channel (name dup_a) = ''validate:dup''" by (simp add: dup_a_def channel_def)
  have ret: "\<forall>r\<in>set ([rule_a] @ dup_a # [rule_skipped] @ dup_b # [rule_b]).
               name r = name dup_a \<longrightarrow> (\<exists>ds. validate r ?c = Inr ds)"
    by (simp add: rule_a_def rule_b_def rule_skipped_def dup_a_def dup_b_def)
  have res: "snd (validator_validate (registered [dup_a, rule_skipped, dup_b]) write_input) =
      Inr \<lparr> valid = False, errors = [''b'', ''b''] \<rparr>"
    by (simp add: dup_a_def dup_b_def rule_skipped_def validator_validate_def registered_def createValidator_def registerRule_def hook_def channel_def callHook_def handlers_of_def rule_handler_def push_result_def parseInput_def js_or_def js_or_empty_def)
  note inst = same_name_handlers_both_fire
    [of dup_b dup_a createValidator "[rule_a]" "[rule_skipped]" "[rule_b]" ?c
        "[dup_a, rule_skipped, dup_b]" write_input "\<lparr> valid = False, errors = [''b'', ''b''] \<rparr>"]
  from inst have r: "rules (registerRule dup_b (registerRule dup_a createValidator)) = [dup_a, dup_b]"
    by (simp add: createValidator_def)
  from inst n ret have
    "fst (callHook (hooks (registered ([rule_a] @ dup_a # [rule_skipped] @ dup_b # [rule_b])))
            (channel (name dup_a)) ?c) =
       fired_on (name dup_a) [rule_a] @ [(channel (name dup_a), rule_handler dup_a)] @
       fired_on (name dup_a) [rule_skipped] @ [(channel (name dup_a), rule_handler dup_b)] @
       fired_on (name dup_a) [rule_b]"
    by blast
  moreover have "fired_on (name dup_a) [rule_a] = []" "fired_on (name dup_a) [rule_skipped] = []"
    "fired_on (name dup_a) [rule_b] = []"
    by (simp_all add: fired_on_def dup_a_def rule_a_def rule_b_def rule_skipped_def)
  ultimately have c: "fst (callHook
        (hooks (registered ([rule_a] @ dup_a # [rule_skipped] @ dup_b # [rule_b])))
        ''validate:dup'' ?c) = ?T"
    by (simp add: ch)
  from inst res have "fst (validator_validate (registered [dup_a, rule_skipped, dup_b]) write_input) =
      fired_on ''before'' [dup_a, rule_skipped, dup_b] @
      concat (map (\<lambda>r. fired_on (name r) [dup_a, rule_skipped, dup_b])
                  (filter (applicable ?c) [dup_a, rule_skipped, dup_b])) @
      fired_on ''after'' [dup_a, rule_skipped, dup_b]"
    by blast
  moreover have "fired_on ''before'' [dup_a, rule_skipped, dup_b] = []"
    "fired_on ''after'' [dup_a, rule_skipped, dup_b] = []"
    "filter (applicable ?c) [dup_a, rule_skipped, dup_b] = [dup_a, dup_b]"
    "fired_on (name dup_a) [dup_a, rule_skipped, dup_b] = ?T"
    "fired_on (name dup_b) [dup_a, rule_skipped, dup_b] = ?T"
    by (simp_all add: fired_on_def applicable_def channel_def dup_a_def dup_b_def rule_skipped_def)
  ultimately have t: "fst (validator_validate (registered [dup_a, rule_skipped, dup_b]) write_input) =
      ?T @ ?T"
    by simp
  from t res have v: "validator_validate (registered [dup_a, rule_skipped, dup_b]) write_input =
     (?T @ ?T, Inr \<lparr> valid = False, errors = [''b'', ''b''] \<rparr>)"
    by (simp add: prod_eq_iff)
  from n r c v show ?thesis by simp
qed

subsection \<open>C10: the project root is the nearest ancestor with a .claude entry\<close>

text \<open>
  C10. \<open>findProjectRoot\<close> returns null or a directory. A directory it returns is an
  ancestor of the start directory (or that directory itself), is not the root \<open>/\<close>,
  contains a \<open>.claude\<close> entry, and no ancestor nearer to the start directory contains
  one. It returns null exactly when no ancestor other than \<open>/\<close> contains a \<open>.claude\<close>
  entry: \<open>/\<close> itself is never examined.
\<close>

theorem findProjectRoot_nearest:
  "(findProjectRoot ex start = None \<or>
    (\<exists>d. findProjectRoot ex start = Some d \<and> prefix d start \<and> d \<noteq> root \<and>
         contains_claude ex d \<and>
         (\<forall>d'. prefix d' start \<and> length d < length d' \<longrightarrow> \<not> contains_claude ex d'))) \<and>
   (findProjectRoot ex start = None \<longleftrightarrow>
      (\<forall>d. prefix d start \<and> d \<noteq> root \<longrightarrow> \<not> contains_claude ex d))"
proof (intro conjI)
  show "findProjectRoot ex start = None \<or>
    (\<exists>d. findProjectRoot ex start = Some d \<and> prefix d start \<and> d \<noteq> root \<and>
         contains_claude ex d \<and>
         (\<forall>d'. prefix d' start \<and> length d < length d' \<longrightarrow> \<not> contains_claude ex d'))"
  proof (cases "findProjectRoot ex start")
    case None
    then show ?thesis by simp
  next
    case (Some d)
    from findProjectRoot_Some[OF this] Some show ?thesis by (simp add: root_def)
  qed
  show "findProjectRoot ex start = None \<longleftrightarrow>
      (\<forall>d. prefix d start \<and> d \<noteq> root \<longrightarrow> \<not> contains_claude ex d)"
    by (simp add: findProjectRoot_None root_def)
qed

theorem findProjectRoot_nearest_witness:
  "findProjectRoot home_fs [''home'', ''me'', ''project''] = Some [''home''] \<and>
   contains_claude root_fs root \<and>
   findProjectRoot root_fs [''home'', ''me'', ''project''] = None"
proof -
  have a: "findProjectRoot home_fs [''home'', ''me'', ''project''] = Some [''home'']"
    using findProjectRoot_snoc[of home_fs "[''home'', ''me'']" "''project''"]
          findProjectRoot_snoc[of home_fs "[''home'']" "''me''"]
          findProjectRoot_snoc[of home_fs "[]" "''home''"]
    by (simp add: home_fs_def)
  have b: "contains_claude root_fs root"
    by (simp add: contains_claude_def root_fs_def root_def join_path_def)
  have "\<forall>d. prefix d [''home'', ''me'', ''project''] \<and> d \<noteq> root \<longrightarrow> \<not> contains_claude root_fs d"
    by (auto simp: contains_claude_def root_fs_def root_def join_path_def)
  with findProjectRoot_nearest[of root_fs "[''home'', ''me'', ''project'']"]
  have "findProjectRoot root_fs [''home'', ''me'', ''project''] = None" by blast
  with a b show ?thesis by blast
qed

end
